theory Spec2Isabelle
  imports Complex_Main "HOL-Library.Log_Nat" "HOL-Library.Word"
begin

section \<open>ASCII-art generator: embedding of \<^verbatim>\<open>main.py\<close> and \<^verbatim>\<open>test.py\<close>\<close>

text \<open>
  The development models the class \<^verbatim>\<open>AsciiArtGenerator\<close> of \<^verbatim>\<open>main.py\<close>
  (\<^verbatim>\<open>generate_ascii_art\<close>, \<^verbatim>\<open>save_ascii_text\<close>, \<^verbatim>\<open>save_ascii_image\<close>,
  \<^verbatim>\<open>_get_font\<close>), the worker \<^verbatim>\<open>AsciiArtUI.generate_ascii\<close> that calls it, and the
  function \<^verbatim>\<open>high_precision_image_to_ascii\<close> of \<^verbatim>\<open>test.py\<close>, which is the body of
  \<^verbatim>\<open>generate_ascii_art\<close> without the enclosing \<^verbatim>\<open>try/except\<close>.

  Pillow, NumPy and the operating system are not code of the repository. Their functions are
  fields of the record \<open>env\<close>; what a theorem needs to know about them is a hypothesis of
  that theorem.
\<close>

subsection \<open>Binary floating point\<close>

text \<open>
  NumPy computes on \<^verbatim>\<open>float32\<close> arrays and Python on doubles. A float is modelled as the
  real number it denotes; an arithmetic operation is the exact operation followed by
  \<open>fl p\<close>, rounding to the nearest number with a \<open>p\<close>-bit significand, ties to even
  (\<open>p = 24\<close> for \<^verbatim>\<open>float32\<close>, \<open>p = 53\<close> for a double). The exponent range of
  \<open>fl\<close> is not bounded. Where Python raises OverflowError the model tests the size of the
  rounded value; subnormal numbers, and infinities and NaN in NumPy arrays, are outside the
  model: the sizes of a Pillow image are below \<open>2 ^ 31\<close>, and the theorems on the
  contrast assume it at most 5.
\<close>

definition ilog2 :: "real \<Rightarrow> int" where
  \<comment> \<open>For \<open>0 < x\<close>: the exponent \<open>e\<close> with \<open>2 powi e \<le> x < 2 powi (e + 1)\<close>.\<close>
  "ilog2 x = (if 1 \<le> x then bitlen \<lfloor>x\<rfloor> - 1 else - bitlen (\<lceil>1 / x\<rceil> - 1))"

definition rne :: "real \<Rightarrow> int" where
  \<comment> \<open>Round to the nearest integer, ties to the even one.\<close>
  "rne y = (let f = \<lfloor>y\<rfloor>; r = y - of_int f
            in if r < 1 / 2 then f else if 1 / 2 < r then f + 1
               else if even f then f else f + 1)"

definition fl :: "nat \<Rightarrow> real \<Rightarrow> real" where
  "fl p x = (if x = 0 then 0
             else let u = 2 powi (ilog2 \<bar>x\<bar> - int p + 1)
                  in sgn x * of_int (rne (\<bar>x\<bar> / u)) * u)"

definition f32 :: "real \<Rightarrow> real" where
  "f32 x = fl 24 x"

definition f64 :: "real \<Rightarrow> real" where
  "f64 x = fl 53 x"

definition py_int :: "real \<Rightarrow> int" where
  \<comment> \<open>Python's \<^verbatim>\<open>int(x)\<close> and NumPy's \<^verbatim>\<open>astype\<close> to an integer type: truncation toward zero.\<close>
  "py_int x = (if 0 \<le> x then \<lfloor>x\<rfloor> else \<lceil>x\<rceil>)"

subsection \<open>Exceptions\<close>

text \<open>
  Every method of \<^verbatim>\<open>AsciiArtGenerator\<close> catches \<^verbatim>\<open>Exception\<close> and raises
  \<^verbatim>\<open>RuntimeError(prefix + str(e))\<close>; the prefix names the method. \<open>RuntimeError\<close> carries
  the method and the exception it replaces.
\<close>

datatype stage = Generate | SaveText | SaveImage | LoadFont

datatype exn =
    OSError
  | ZeroDivisionError
  | ValueError
  | IndexError
  | OverflowError
  | RuntimeError stage exn

fun exn_class :: "exn \<Rightarrow> string" where
  "exn_class OSError = ''OSError''"
| "exn_class ZeroDivisionError = ''ZeroDivisionError''"
| "exn_class ValueError = ''ValueError''"
| "exn_class IndexError = ''IndexError''"
| "exn_class OverflowError = ''OverflowError''"
| "exn_class (RuntimeError s e) = ''RuntimeError''"

definition wrap :: "stage \<Rightarrow> exn + 'a \<Rightarrow> exn + 'a" where
  \<comment> \<open>\<^verbatim>\<open>try: ... except Exception as e: raise RuntimeError(...)\<close>\<close>
  "wrap s r = (case r of Inl e \<Rightarrow> Inl (RuntimeError s e) | Inr v \<Rightarrow> Inr v)"

subsection \<open>Images, fonts, bitmaps and the environment\<close>

text \<open>
  A mode \<^verbatim>\<open>L\<close> image: its size and its 8-bit samples in row-major order, which is the
  order of \<^verbatim>\<open>np.array(img).flatten()\<close>.
\<close>

record image =
  width :: nat
  height :: nat
  pix :: "8 word list"

text \<open>
  A font object. \<open>getsize\<close> is \<open>None\<close> when the object has no attribute
  \<^verbatim>\<open>getsize\<close> (\<^verbatim>\<open>hasattr(font, 'getsize')\<close> is false).
\<close>

record font =
  font_name :: string
  getsize :: "(string \<Rightarrow> nat \<times> nat) option"

type_synonym color = "nat \<times> nat \<times> nat"

text \<open>
  A mode \<^verbatim>\<open>RGB\<close> image made by \<^verbatim>\<open>Image.new\<close>: its size, its fill colour and the
  \<^verbatim>\<open>draw.text\<close> calls made on it, in order, each with its position, text and colour.
\<close>

record bitmap =
  bm_width :: nat
  bm_height :: nat
  background :: color
  texts :: "((nat \<times> nat) \<times> string \<times> color) list"

datatype content = Text string | Png bitmap

text \<open>
  The state the program changes: the font cache of the generator object, the directories it
  made and the files it wrote, latest last.
\<close>

record state =
  font_cache :: "int \<rightharpoonup> font"
  made_dirs :: "string list"
  written :: "(string \<times> content) list"

text \<open>
  The library and operating-system functions the program calls. A function that can raise
  returns \<open>exn + 'a\<close>, or \<open>exn option\<close> when it returns nothing.
\<close>

record env =
  image_open :: "string \<Rightarrow> exn + image"
    \<comment> \<open>\<^verbatim>\<open>Image.open(path).convert('L')\<close>\<close>
  image_resize :: "image \<Rightarrow> int \<times> int \<Rightarrow> exn + image"
    \<comment> \<open>\<^verbatim>\<open>img.resize((w, h), Image.LANCZOS)\<close>\<close>
  np_power :: "real \<Rightarrow> real \<Rightarrow> real"
    \<comment> \<open>\<^verbatim>\<open>np.power\<close> on one \<^verbatim>\<open>float32\<close> element\<close>
  path_exists :: "string \<Rightarrow> bool"
    \<comment> \<open>\<^verbatim>\<open>os.path.exists\<close>\<close>
  truetype :: "string \<Rightarrow> int \<Rightarrow> exn + font"
    \<comment> \<open>\<^verbatim>\<open>ImageFont.truetype(path_or_name, size)\<close>\<close>
  load_default :: "exn + font"
    \<comment> \<open>\<^verbatim>\<open>ImageFont.load_default()\<close>\<close>
  open_write :: "string \<Rightarrow> exn option"
    \<comment> \<open>\<^verbatim>\<open>open(path, "w")\<close>: the exception it raises, if any\<close>
  image_save :: "bitmap \<Rightarrow> string \<Rightarrow> exn option"
    \<comment> \<open>\<^verbatim>\<open>img.save(path, 'PNG', compress_level=1)\<close>: the exception it raises, if any\<close>
  makedirs :: "string \<Rightarrow> exn option"
    \<comment> \<open>\<^verbatim>\<open>os.makedirs(path)\<close>: the exception it raises, if any\<close>
  path_stem :: "string \<Rightarrow> string"
    \<comment> \<open>\<^verbatim>\<open>os.path.splitext(os.path.basename(path))[0]\<close>\<close>
  path_join :: "string \<Rightarrow> string \<Rightarrow> string"
    \<comment> \<open>\<^verbatim>\<open>os.path.join\<close>\<close>

subsection \<open>The character ramp\<close>

definition ASCII_CHARS :: string where
  \<comment> \<open>The backslash, the double quote, the backquote and the single quote are written by code.\<close>
  "ASCII_CHARS =
     ''@$B%8&WM#*oahkbdpqwmZO0QLCJUYXzcvunxrjft/'' @ [CHR 0x5C] @
     ''|()1{}[]?-_+~<>i!lI;:,'' @ [CHR 0x22] @ ''^'' @ [CHR 0x60, CHR 0x27] @ ''. ''"

subsection \<open>\<^verbatim>\<open>generate_ascii_art\<close>\<close>

definition contrast_adjust :: "real \<Rightarrow> 8 word \<Rightarrow> 8 word" where
  \<comment> \<open>One element of
     \<^verbatim>\<open>img = img.astype(np.float32); img = (img - 128) * contrast + 128;
            img = np.clip(img, 0, 255).astype(np.uint8)\<close>.
     The Python float \<^verbatim>\<open>contrast\<close> enters the \<^verbatim>\<open>float32\<close> product as a \<^verbatim>\<open>float32\<close>.\<close>
  "contrast_adjust contrast v =
     (let img = f32 (real (unat v));
          img = f32 (f32 (f32 (img - 128) * f32 contrast) + 128);
          img = min (max img 0) 255
      in word_of_int (py_int img))"

definition f64_overflow :: "real \<Rightarrow> bool" where
  \<comment> \<open>The double nearest to \<open>x\<close> is beyond the largest finite double.\<close>
  "f64_overflow x \<longleftrightarrow> 2 ^ 1024 \<le> \<bar>f64 x\<bar>"

definition new_height :: "int \<Rightarrow> nat \<Rightarrow> nat \<Rightarrow> exn + int" where
  \<comment> \<open>\<^verbatim>\<open>aspect_ratio = height / width;
            new_height = int(output_width * aspect_ratio * 0.5)\<close>.
     The division of two integers and the conversion of \<^verbatim>\<open>output_width\<close> to a double raise
     OverflowError when the result is too large; a product that is too large is infinite,
     and \<^verbatim>\<open>int\<close> of it raises OverflowError.\<close>
  "new_height output_width w h =
     (if w = 0 then Inl ZeroDivisionError
      else if f64_overflow (real h / real w) \<or> f64_overflow (of_int output_width)
      then Inl OverflowError
      else let aspect_ratio = f64 (real h / real w);
               product = f64 (f64 (of_int output_width) * aspect_ratio)
           in if 2 ^ 1024 \<le> \<bar>product\<bar> then Inl OverflowError
              else Inr (py_int (f64 (product * (1 / 2)))))"

definition char_index :: "(real \<Rightarrow> real \<Rightarrow> real) \<Rightarrow> real \<Rightarrow> 8 word \<Rightarrow> int" where
  \<comment> \<open>One element of
     \<^verbatim>\<open>normalized = pixels.astype(np.float32) / 255.0;
            normalized = np.power(normalized, gamma);
            indices = (normalized * (char_length - 1)).astype(np.int32)\<close>\<close>
  "char_index pw gamma p =
     (let char_length = length ASCII_CHARS;
          normalized = f32 (f32 (real (unat p)) / 255);
          normalized = pw normalized gamma
      in py_int (f32 (normalized * real (char_length - 1))))"

definition py_index :: "'a list \<Rightarrow> int \<Rightarrow> exn + 'a" where
  \<comment> \<open>\<^verbatim>\<open>xs[i]\<close>: an index from \<open>- len(xs)\<close> to \<open>-1\<close> counts from the end.\<close>
  "py_index xs i =
     (if 0 \<le> i \<and> i < int (length xs) then Inr (xs ! nat i)
      else if - int (length xs) \<le> i \<and> i < 0 then Inr (xs ! nat (int (length xs) + i))
      else Inl IndexError)"

fun join_chars :: "int list \<Rightarrow> exn + string" where
  \<comment> \<open>\<^verbatim>\<open>''.join([ASCII_CHARS[i] for i in indices.flatten()])\<close>\<close>
  "join_chars [] = Inr []"
| "join_chars (i # rest) =
     (case py_index ASCII_CHARS i of
        Inl e \<Rightarrow> Inl e
      | Inr c \<Rightarrow> (case join_chars rest of Inl e \<Rightarrow> Inl e | Inr cs \<Rightarrow> Inr (c # cs)))"

function range_step :: "nat \<Rightarrow> nat \<Rightarrow> nat \<Rightarrow> nat list" where
  \<comment> \<open>\<^verbatim>\<open>range(i, n, st)\<close> for a positive step.\<close>
  "range_step i n st = (if 0 < st \<and> i < n then i # range_step (i + st) n st else [])"
  by pat_completeness auto
termination
  by (relation "measure (\<lambda>(i, n, st). n - i)") auto

definition split_lines :: "string \<Rightarrow> int \<Rightarrow> exn + string list" where
  \<comment> \<open>\<^verbatim>\<open>[ascii_str[i:i+output_width] for i in range(0, len(ascii_str), output_width)]\<close>:
     \<^verbatim>\<open>range\<close> raises ValueError for step 0 and is empty for a negative step.\<close>
  "split_lines ascii_str output_width =
     (if output_width = 0 then Inl ValueError
      else if output_width < 0 then Inr []
      else Inr (map (\<lambda>i. take (nat output_width) (drop i ascii_str))
                  (range_step 0 (length ascii_str) (nat output_width))))"

definition high_precision_image_to_ascii ::
    "env \<Rightarrow> string \<Rightarrow> int \<Rightarrow> real \<Rightarrow> real \<Rightarrow> exn + string list" where
  "high_precision_image_to_ascii E image_path output_width contrast gamma =
     (case image_open E image_path of
        Inl e \<Rightarrow> Inl e
      | Inr img \<Rightarrow>
          let img = img\<lparr>pix := map (contrast_adjust contrast) (pix img)\<rparr>
          in case new_height output_width (width img) (height img) of
               Inl e \<Rightarrow> Inl e
             | Inr nh \<Rightarrow>
                 (case image_resize E img (output_width, nh) of
                    Inl e \<Rightarrow> Inl e
                  | Inr img \<Rightarrow>
                      let indices = map (char_index (np_power E) gamma) (pix img)
                      in case join_chars indices of
                           Inl e \<Rightarrow> Inl e
                         | Inr ascii_str \<Rightarrow> split_lines ascii_str output_width))"

definition generate_ascii_art ::
    "env \<Rightarrow> string \<Rightarrow> int \<Rightarrow> real \<Rightarrow> real \<Rightarrow> exn + string list" where
  "generate_ascii_art E image_path output_width contrast gamma =
     wrap Generate (high_precision_image_to_ascii E image_path output_width contrast gamma)"

subsection \<open>\<^verbatim>\<open>_get_font\<close>, \<^verbatim>\<open>save_ascii_text\<close>, \<^verbatim>\<open>save_ascii_image\<close>\<close>

definition default_font_paths :: "string list" where
  "default_font_paths =
     [''/System/Library/Fonts/Menlo.ttc'',
      ''/usr/share/fonts/truetype/ubuntu/UbuntuMono-R.ttf'',
      ''C:/Windows/Fonts/consola.ttf'',
      ''C:/Windows/Fonts/lucon.ttf'',
      ''C:/Windows/Fonts/CascadiaMono.ttf'']"

definition common_fonts :: "string list" where
  "common_fonts = [''consola'', ''cour'', ''menlo'', ''dejavusansmono'', ''ubuntumono'']"

fun try_paths :: "env \<Rightarrow> string list \<Rightarrow> int \<Rightarrow> font option" where
  \<comment> \<open>\<^verbatim>\<open>for path in paths: if os.path.exists(path): try: font = truetype(path, size); break
            except: continue\<close>; \<open>None\<close> when \<^verbatim>\<open>font\<close> is still \<^verbatim>\<open>None\<close> after the loop.\<close>
  "try_paths E [] font_size = None"
| "try_paths E (path # rest) font_size =
     (if path_exists E path
      then (case truetype E path font_size of
              Inr f \<Rightarrow> Some f
            | Inl e \<Rightarrow> try_paths E rest font_size)
      else try_paths E rest font_size)"

fun try_names :: "env \<Rightarrow> string list \<Rightarrow> int \<Rightarrow> font option" where
  \<comment> \<open>\<^verbatim>\<open>for name in common_fonts: try: font = truetype(name, size); break
            except: continue\<close>\<close>
  "try_names E [] font_size = None"
| "try_names E (name # rest) font_size =
     (case truetype E name font_size of
        Inr f \<Rightarrow> Some f
      | Inl e \<Rightarrow> try_names E rest font_size)"

definition find_font :: "env \<Rightarrow> int \<Rightarrow> font option" where
  \<comment> \<open>The two loops, the second run only \<^verbatim>\<open>if font is None\<close>.\<close>
  "find_font E font_size =
     (case try_paths E default_font_paths font_size of
        Some f \<Rightarrow> Some f
      | None \<Rightarrow> try_names E common_fonts font_size)"

definition get_font :: "env \<Rightarrow> state \<Rightarrow> int \<Rightarrow> (exn + font) \<times> state" where
  \<comment> \<open>\<^verbatim>\<open>_get_font\<close>. The cache key \<^verbatim>\<open>f"{font_size}"\<close> is the decimal numeral of the size;
     the size itself is the key here.\<close>
  "get_font E s font_size =
     (case font_cache s font_size of
        Some f \<Rightarrow> (Inr f, s)
      | None \<Rightarrow>
          (case find_font E font_size of
             Some f \<Rightarrow> (Inr f, s\<lparr>font_cache := (font_cache s)(font_size \<mapsto> f)\<rparr>)
           | None \<Rightarrow>
               (case load_default E of
                  Inr f \<Rightarrow> (Inr f, s\<lparr>font_cache := (font_cache s)(font_size \<mapsto> f)\<rparr>)
                | Inl e \<Rightarrow> (Inl (RuntimeError LoadFont e), s))))"

fun join_lines :: "string list \<Rightarrow> string" where
  \<comment> \<open>\<^verbatim>\<open>'\n'.join(ascii_lines)\<close>\<close>
  "join_lines [] = []"
| "join_lines [l] = l"
| "join_lines (l # rest) = l @ [CHR 0x0A] @ join_lines rest"

definition save_ascii_text :: "env \<Rightarrow> state \<Rightarrow> string list \<Rightarrow> string \<Rightarrow> (exn + bool) \<times> state" where
  "save_ascii_text E s ascii_lines output_path =
     (case open_write E output_path of
        Some e \<Rightarrow> (Inl (RuntimeError SaveText e), s)
      | None \<Rightarrow>
          (Inr True, s\<lparr>written := written s @ [(output_path, Text (join_lines ascii_lines))]\<rparr>))"

definition char_size :: "font \<Rightarrow> nat \<times> nat" where
  \<comment> \<open>\<^verbatim>\<open>if hasattr(font, 'getsize'): char_width, char_height = font.getsize("A")
            else: char_width, char_height = 6, 12\<close>\<close>
  "char_size f = (case getsize f of Some g \<Rightarrow> g ''A'' | None \<Rightarrow> (6, 12))"

fun draw_lines :: "bitmap \<Rightarrow> nat \<Rightarrow> nat \<Rightarrow> color \<Rightarrow> string list \<Rightarrow> bitmap" where
  \<comment> \<open>\<^verbatim>\<open>for line in ascii_lines: draw.text((0, y), line, fill=text_color, font=font);
            y += char_height\<close>\<close>
  "draw_lines img y char_height text_color [] = img"
| "draw_lines img y char_height text_color (line # rest) =
     draw_lines (img\<lparr>texts := texts img @ [((0, y), line, text_color)]\<rparr>)
       (y + char_height) char_height text_color rest"

definition ascii_bitmap :: "font \<Rightarrow> string list \<Rightarrow> color \<Rightarrow> color \<Rightarrow> exn + bitmap" where
  \<comment> \<open>From the character size to the end of the drawing loop, the same text in
     \<^verbatim>\<open>save_ascii_image\<close> and \<^verbatim>\<open>save_high_res_ascii\<close>. \<^verbatim>\<open>ascii_lines[0]\<close> raises
     IndexError on the empty list.\<close>
  "ascii_bitmap f ascii_lines bg_color text_color =
     (let (char_width, char_height) = char_size f
      in case ascii_lines of
           [] \<Rightarrow> Inl IndexError
         | first # rest \<Rightarrow>
             let img_width = char_width * length first;
                 img_height = char_height * length ascii_lines;
                 img = \<lparr>bm_width = img_width, bm_height = img_height,
                        background = bg_color, texts = []\<rparr>
             in Inr (draw_lines img 0 char_height text_color ascii_lines))"

definition save_ascii_image ::
    "env \<Rightarrow> state \<Rightarrow> string list \<Rightarrow> string \<Rightarrow> int \<Rightarrow> color \<Rightarrow> color \<Rightarrow> (exn + bool) \<times> state" where
  "save_ascii_image E s ascii_lines output_path font_size bg_color text_color =
     (case get_font E s font_size of
        (Inl e, s1) \<Rightarrow> (Inl (RuntimeError SaveImage e), s1)
      | (Inr f, s1) \<Rightarrow>
          (case ascii_bitmap f ascii_lines bg_color text_color of
             Inl e \<Rightarrow> (Inl (RuntimeError SaveImage e), s1)
           | Inr img \<Rightarrow>
               (case image_save E img output_path of
                  Some e \<Rightarrow> (Inl (RuntimeError SaveImage e), s1)
                | None \<Rightarrow>
                    (Inr True, s1\<lparr>written := written s1 @ [(output_path, Png img)]\<rparr>))))"

definition save_high_res_ascii ::
    "env \<Rightarrow> state \<Rightarrow> string list \<Rightarrow> string \<Rightarrow> int \<Rightarrow> color \<Rightarrow> color \<Rightarrow> (exn + bitmap) \<times> state" where
  \<comment> \<open>\<^verbatim>\<open>test.py\<close>: no cache and no \<^verbatim>\<open>RuntimeError\<close>; when the font code raises, which only
     \<^verbatim>\<open>load_default\<close> can, the handler calls \<^verbatim>\<open>load_default\<close> again. The image is
     returned.\<close>
  "save_high_res_ascii E s ascii_lines output_path font_size bg_color text_color =
     (case (case find_font E font_size of Some f \<Rightarrow> Inr f | None \<Rightarrow> load_default E) of
        Inl e \<Rightarrow> (Inl e, s)
      | Inr f \<Rightarrow>
          (case ascii_bitmap f ascii_lines bg_color text_color of
             Inl e \<Rightarrow> (Inl e, s)
           | Inr img \<Rightarrow>
               (case image_save E img output_path of
                  Some e \<Rightarrow> (Inl e, s)
                | None \<Rightarrow> (Inr img, s\<lparr>written := written s @ [(output_path, Png img)]\<rparr>))))"

subsection \<open>\<^verbatim>\<open>AsciiArtUI.generate_ascii\<close>\<close>

datatype status = InvalidInput | Done | Failed exn

definition generate_ascii ::
    "env \<Rightarrow> state \<Rightarrow> string \<Rightarrow> string \<Rightarrow> int \<Rightarrow> real \<Rightarrow> real \<Rightarrow> int \<Rightarrow> bool \<Rightarrow> bool
      \<Rightarrow> status \<times> state" where
  \<comment> \<open>The worker of the form, without its widgets: the preview and the status bar change no
     file. \<^verbatim>\<open>except Exception as e\<close> ends the run with the error.\<close>
  "generate_ascii E s input_path output_dir output_width contrast gamma font_size
       save_text save_image =
     (if input_path = [] \<or> \<not> path_exists E input_path then (InvalidInput, s)
      else case (if \<not> path_exists E output_dir then makedirs E output_dir else None) of
             Some e \<Rightarrow> (Failed e, s)
           | None \<Rightarrow>
               let s = (if \<not> path_exists E output_dir
                        then s\<lparr>made_dirs := made_dirs s @ [output_dir]\<rparr> else s);
                   base_name = path_stem E input_path;
                   txt_path = path_join E output_dir (base_name @ ''_ascii.txt'');
                   png_path = path_join E output_dir (base_name @ ''_ascii.png'')
               in case generate_ascii_art E input_path output_width contrast gamma of
                    Inl e \<Rightarrow> (Failed e, s)
                  | Inr ascii_lines \<Rightarrow>
                      (case (if save_text then save_ascii_text E s ascii_lines txt_path
                             else (Inr True, s)) of
                         (Inl e, s) \<Rightarrow> (Failed e, s)
                       | (Inr ok, s) \<Rightarrow>
                           (case (if save_image
                                  then save_ascii_image E s ascii_lines png_path font_size
                                         (3, 3, 3) (255, 255, 255)
                                  else (Inr True, s)) of
                              (Inl e, s) \<Rightarrow> (Failed e, s)
                            | (Inr ok, s) \<Rightarrow> (Done, s))))"

subsection \<open>What the theorems assume of the libraries\<close>

definition resize_contract :: "(image \<Rightarrow> int \<times> int \<Rightarrow> exn + image) \<Rightarrow> bool" where
  \<comment> \<open>Pillow's \<^verbatim>\<open>resize\<close> raises ValueError (height and width must be > 0) for a requested
     size below 1, and an image it returns has the requested size.\<close>
  "resize_contract rs \<longleftrightarrow>
     (\<forall>img w h r. rs img (w, h) = Inr r \<longrightarrow>
        1 \<le> w \<and> 1 \<le> h \<and> int (width r) = w \<and> int (height r) = h \<and>
        length (pix r) = width r * height r)"

definition resize_accepts :: "(image \<Rightarrow> int \<times> int \<Rightarrow> exn + image) \<Rightarrow> bool" where
  \<comment> \<open>\<^verbatim>\<open>resize\<close> returns for every size from 1 by 1.\<close>
  "resize_accepts rs \<longleftrightarrow> (\<forall>img w h. 1 \<le> w \<and> 1 \<le> h \<longrightarrow> (\<exists>r. rs img (w, h) = Inr r))"

definition save_rejects_empty :: "(bitmap \<Rightarrow> string \<Rightarrow> exn option) \<Rightarrow> bool" where
  \<comment> \<open>Pillow's \<^verbatim>\<open>save\<close> raises ValueError (cannot write empty image) for an image with a side
     of length 0.\<close>
  "save_rejects_empty sv \<longleftrightarrow>
     (\<forall>img p. bm_width img = 0 \<or> bm_height img = 0 \<longrightarrow> sv img p \<noteq> None)"

definition power_in_unit :: "(real \<Rightarrow> real \<Rightarrow> real) \<Rightarrow> real \<Rightarrow> bool" where
  \<comment> \<open>At this exponent the power of a number of the unit interval is in the unit interval.\<close>
  "power_in_unit pw gamma \<longleftrightarrow> (\<forall>x. 0 \<le> x \<and> x \<le> 1 \<longrightarrow> 0 \<le> pw x gamma \<and> pw x gamma \<le> 1)"

definition real_power :: "real \<Rightarrow> real \<Rightarrow> real" where
  \<comment> \<open>The power function that \<^verbatim>\<open>np.power\<close> approximates; \<^verbatim>\<open>np.power(x, 0)\<close> is 1.\<close>
  "real_power x gamma = (if gamma = 0 then 1 else x powr gamma)"

subsection \<open>An environment to run the model in\<close>

definition flat_resize :: "image \<Rightarrow> int \<times> int \<Rightarrow> exn + image" where
  \<comment> \<open>A resize for images of one colour: it keeps the size contract and fills the new image
     with the first sample of the old one.\<close>
  "flat_resize img sz =
     (case sz of (w, h) \<Rightarrow>
        if w < 1 \<or> h < 1 then Inl ValueError
        else Inr \<lparr>width = nat w, height = nat h,
                  pix = replicate (nat w * nat h) (if pix img = [] then 0 else hd (pix img))\<rparr>)"

definition whole_power :: "real \<Rightarrow> real \<Rightarrow> real" where
  \<comment> \<open>The power for an exponent that is a natural number.\<close>
  "whole_power x gamma = x ^ nat \<lfloor>gamma\<rfloor>"

definition mono_font :: font where
  "mono_font = \<lparr>font_name = ''DejaVuSansMono'', getsize = Some (\<lambda>t. (5 * length t, 9))\<rparr>"

definition builtin_font :: font where
  "builtin_font = \<lparr>font_name = ''default'', getsize = None\<rparr>"

definition example_env :: env where
  \<comment> \<open>Two image files, a square one and a wide one, both mid-grey; one installed font;
     \<^verbatim>\<open>save\<close> refuses an empty image.\<close>
  "example_env =
     \<lparr>image_open = (\<lambda>p. if p = ''square.png''
                           then Inr \<lparr>width = 2, height = 2, pix = replicate 4 128\<rparr>
                         else if p = ''wide.png''
                           then Inr \<lparr>width = 6, height = 2, pix = replicate 12 128\<rparr>
                         else Inl OSError),
      image_resize = flat_resize,
      np_power = whole_power,
      path_exists = (\<lambda>p. p \<in> {''square.png'', ''wide.png'', ''out''}),
      truetype = (\<lambda>n sz. if n = ''dejavusansmono'' \<and> 0 < sz then Inr mono_font else Inl OSError),
      load_default = Inr builtin_font,
      open_write = (\<lambda>p. None),
      image_save = (\<lambda>b p. if bm_width b = 0 \<or> bm_height b = 0 then Some ValueError else None),
      makedirs = (\<lambda>p. None),
      path_stem = takeWhile (\<lambda>c. c \<noteq> CHR ''.''),
      path_join = (\<lambda>d f. d @ ''/'' @ f)\<rparr>"

definition empty_state :: state where
  "empty_state = \<lparr>font_cache = Map.empty, made_dirs = [], written = []\<rparr>"

subsection \<open>Font resolution as the specification words it\<close>

text \<open>
  The specification lists the attempts in order: the platform font paths, the common font
  names, the built-in font; the first success wins. \<open>font_attempts\<close> is that list and
  \<open>first_success\<close> its first success, to compare \<open>get_font\<close> with.
\<close>

definition font_attempts :: "env \<Rightarrow> int \<Rightarrow> (exn + font) list" where
  "font_attempts E font_size =
     map (\<lambda>p. if path_exists E p then truetype E p font_size else Inl OSError) default_font_paths
     @ map (\<lambda>n. truetype E n font_size) common_fonts
     @ [load_default E]"

definition first_success :: "(exn + font) list \<Rightarrow> font option" where
  "first_success rs = (case filter (\<lambda>r. \<not> isl r) rs of [] \<Rightarrow> None | r # _ \<Rightarrow> Some (projr r))"

section \<open>Lemmas\<close>

subsection \<open>Rounding to a float\<close>

lemma bitlen_pos: "0 < n \<Longrightarrow> 1 \<le> bitlen n"
  using bitlen_bounds [of n] by (cases "bitlen n \<le> 0") (auto simp: not_le)

lemma ilog2_lower:
  assumes "0 < x"
  shows "2 powi (ilog2 x) \<le> x"
proof (cases "1 \<le> x")
  case True
  define n where "n = \<lfloor>x\<rfloor>"
  have n: "1 \<le> n" using True by (simp add: n_def)
  then have b: "1 \<le> bitlen n" by (simp add: bitlen_pos)
  have "2 ^ nat (bitlen n - 1) \<le> n" using bitlen_bounds [of n] n by simp
  then have "(2::real) ^ nat (bitlen n - 1) \<le> of_int n"
    by (metis of_int_le_iff of_int_numeral of_int_power)
  also have "\<dots> \<le> x" by (simp add: n_def)
  finally show ?thesis using True b by (simp add: ilog2_def n_def power_int_def)
next
  case False
  define m where "m = \<lceil>1 / x\<rceil> - 1"
  have y: "1 < 1 / x" using False assms by simp
  then have "1 < \<lceil>1 / x\<rceil>" by (simp add: less_ceiling_iff)
  then have m: "1 \<le> m" by (simp add: m_def)
  then have b: "1 \<le> bitlen m" by (simp add: bitlen_pos)
  have "m + 1 \<le> 2 ^ nat (bitlen m)" using bitlen_bounds [of m] m by simp
  then have "of_int (m + 1) \<le> ((2::real) ^ nat (bitlen m))"
    by (metis of_int_le_iff of_int_numeral of_int_power)
  moreover have "1 / x \<le> of_int (m + 1)" by (simp add: m_def)
  ultimately have "1 / x \<le> 2 ^ nat (bitlen m)" by linarith
  then have "1 \<le> 2 ^ nat (bitlen m) * x" using assms by (simp add: field_simps)
  then have "1 / 2 ^ nat (bitlen m) \<le> x" by (simp add: field_simps)
  then show ?thesis using False b
    by (simp add: ilog2_def m_def power_int_def field_simps)
qed

lemma ilog2_upper:
  assumes "0 < x"
  shows "x < 2 powi (ilog2 x + 1)"
proof (cases "1 \<le> x")
  case True
  define n where "n = \<lfloor>x\<rfloor>"
  have n: "1 \<le> n" using True by (simp add: n_def)
  then have b: "1 \<le> bitlen n" by (simp add: bitlen_pos)
  have "n + 1 \<le> 2 ^ nat (bitlen n)" using bitlen_bounds [of n] n by simp
  then have "of_int (n + 1) \<le> ((2::real) ^ nat (bitlen n))"
    by (metis of_int_le_iff of_int_numeral of_int_power)
  moreover have "x < of_int (n + 1)" by (simp add: n_def)
  ultimately have "x < 2 ^ nat (bitlen n)" by linarith
  then show ?thesis using True b by (simp add: ilog2_def n_def power_int_def)
next
  case False
  define m where "m = \<lceil>1 / x\<rceil> - 1"
  have y: "1 < 1 / x" using False assms by simp
  then have "1 < \<lceil>1 / x\<rceil>" by (simp add: less_ceiling_iff)
  then have m: "1 \<le> m" by (simp add: m_def)
  then have b: "1 \<le> bitlen m" by (simp add: bitlen_pos)
  have "2 ^ nat (bitlen m - 1) \<le> m" using bitlen_bounds [of m] m by simp
  then have "(2::real) ^ nat (bitlen m - 1) \<le> of_int m"
    by (metis of_int_le_iff of_int_numeral of_int_power)
  moreover have "of_int m < 1 / x" unfolding m_def by linarith
  ultimately have "2 ^ nat (bitlen m - 1) < 1 / x" by linarith
  then have "2 ^ nat (bitlen m - 1) * x < 1" using assms by (simp add: field_simps)
  then have lt: "x < 1 / 2 ^ nat (bitlen m - 1)" by (simp add: field_simps)
  show ?thesis
  proof (cases "bitlen m = 1")
    case True
    then show ?thesis using False b lt by (simp add: ilog2_def m_def [symmetric])
  next
    case False
    then have "2 \<le> bitlen m" using b by simp
    then have "nat (bitlen m - 1) = nat (- (1 - bitlen m))" "\<not> 0 \<le> 1 - bitlen m" by simp_all
    then show ?thesis using \<open>\<not> 1 \<le> x\<close> lt
      by (simp add: ilog2_def m_def [symmetric] power_int_def field_simps)
  qed
qed

lemma rne_cases: "rne y = \<lfloor>y\<rfloor> \<or> rne y = \<lfloor>y\<rfloor> + 1"
  by (simp add: rne_def Let_def)

lemma rne_of_int [simp]: "rne (of_int n) = n"
  by (simp add: rne_def)

lemma rne_err: "\<bar>of_int (rne y) - y\<bar> \<le> 1 / 2"
proof -
  have "of_int \<lfloor>y\<rfloor> \<le> y" "y < of_int \<lfloor>y\<rfloor> + 1" by linarith+
  then show ?thesis by (auto simp: rne_def Let_def abs_le_iff)
qed

lemma rne_mono:
  assumes "y \<le> z"
  shows "rne y \<le> rne z"
proof (cases "\<lfloor>y\<rfloor> = \<lfloor>z\<rfloor>")
  case True
  then show ?thesis using assms by (auto simp: rne_def Let_def)
next
  case False
  then have "\<lfloor>y\<rfloor> + 1 \<le> \<lfloor>z\<rfloor>" using floor_mono [OF assms] by simp
  moreover have "rne y \<le> \<lfloor>y\<rfloor> + 1" using rne_cases [of y] by auto
  moreover have "\<lfloor>z\<rfloor> \<le> rne z" using rne_cases [of z] by auto
  ultimately show ?thesis by linarith
qed


lemma two_powi_pos [simp]: "0 < (2::real) powi k"
  by (simp add: power_int_def)

lemma two_powi_add: "(2::real) powi (a + b) = 2 powi a * 2 powi b"
  by (simp add: power_int_add)

lemma two_powi_split_lo: "(2::real) powi e = 2 powi (int p - 1) * 2 powi (e - int p + 1)"
  using two_powi_add [of "int p - 1" "e - int p + 1"] by simp

lemma two_powi_split_hi: "(2::real) powi (e + 1) = 2 ^ p * 2 powi (e - int p + 1)"
  using two_powi_add [of "int p" "e - int p + 1"] by simp

lemma fl_zero [simp]: "fl p 0 = 0"
  by (simp add: fl_def)

lemma fl_minus: "fl p (- x) = - fl p x"
  by (simp add: fl_def Let_def sgn_if)

lemma fl_pos_eq:
  "0 < x \<Longrightarrow> fl p x = of_int (rne (x / 2 powi (ilog2 x - int p + 1))) * 2 powi (ilog2 x - int p + 1)"
  by (simp add: fl_def Let_def)

lemma scaled_lower:
  assumes "0 < x" "1 \<le> p"
  shows "2 ^ (p - 1) \<le> x / 2 powi (ilog2 x - int p + 1)"
proof -
  have "(2::real) powi (ilog2 x) = 2 powi (int p - 1) * 2 powi (ilog2 x - int p + 1)"
    by (rule two_powi_split_lo)
  also have "(2::real) powi (int p - 1) = 2 ^ (p - 1)"
    using assms(2) by (simp add: power_int_def nat_diff_distrib')
  finally have "2 ^ (p - 1) * 2 powi (ilog2 x - int p + 1) \<le> x"
    using ilog2_lower [OF assms(1)] by simp
  then show ?thesis by (simp add: pos_le_divide_eq)
qed

lemma scaled_upper:
  assumes "0 < x"
  shows "x / 2 powi (ilog2 x - int p + 1) < 2 ^ p"
proof -
  have "(2::real) powi (ilog2 x + 1) = 2 ^ p * 2 powi (ilog2 x - int p + 1)"
    by (rule two_powi_split_hi)
  then have "x < 2 ^ p * 2 powi (ilog2 x - int p + 1)"
    using ilog2_upper [OF assms] by simp
  then show ?thesis by (simp add: pos_divide_less_eq)
qed

lemma fl_pos_lower:
  assumes "0 < x" "1 \<le> p"
  shows "2 powi (ilog2 x) \<le> fl p x"
proof -
  let ?u = "(2::real) powi (ilog2 x - int p + 1)"
  have "rne (of_int (2 ^ (p - 1))) \<le> rne (x / ?u)"
    using scaled_lower [OF assms] by (intro rne_mono) simp
  then have "(2::int) ^ (p - 1) \<le> rne (x / ?u)" by (simp only: rne_of_int)
  then have "(2::real) ^ (p - 1) \<le> of_int (rne (x / ?u))"
    by (metis of_int_le_iff of_int_numeral of_int_power)
  then have "2 ^ (p - 1) * ?u \<le> of_int (rne (x / ?u)) * ?u"
    by (simp add: mult_right_mono)
  moreover have "2 powi (ilog2 x) = 2 powi (int p - 1) * ?u"
    by (rule two_powi_split_lo)
  moreover have "(2::real) powi (int p - 1) = 2 ^ (p - 1)"
    using assms(2) by (simp add: power_int_def nat_diff_distrib')
  ultimately show ?thesis using assms(1) by (simp add: fl_pos_eq)
qed

lemma fl_pos_upper:
  assumes "0 < x"
  shows "fl p x \<le> 2 powi (ilog2 x + 1)"
proof -
  let ?u = "(2::real) powi (ilog2 x - int p + 1)"
  have "rne (x / ?u) \<le> rne (of_int (2 ^ p))"
    using scaled_upper [OF assms, of p] by (intro rne_mono) simp
  then have "rne (x / ?u) \<le> 2 ^ p" by (simp only: rne_of_int)
  then have "of_int (rne (x / ?u)) \<le> (2::real) ^ p"
    by (metis of_int_le_iff of_int_numeral of_int_power)
  then have "of_int (rne (x / ?u)) * ?u \<le> 2 ^ p * ?u"
    by (simp add: mult_right_mono)
  moreover have "2 powi (ilog2 x + 1) = 2 ^ p * ?u"
    by (rule two_powi_split_hi)
  ultimately show ?thesis using assms by (simp add: fl_pos_eq)
qed

lemma fl_pos_nonneg: "0 < x \<Longrightarrow> 1 \<le> p \<Longrightarrow> 0 < fl p x"
  using fl_pos_lower [of x p] two_powi_pos [of "ilog2 x"] by linarith

lemma ilog2_mono:
  assumes "0 < x" "x \<le> y"
  shows "ilog2 x \<le> ilog2 y"
proof -
  have lt: "2 powi (ilog2 x) < (2::real) powi (ilog2 y + 1)"
    using ilog2_lower [OF assms(1)] ilog2_upper [of y] assms by linarith
  show ?thesis
  proof (rule ccontr)
    assume "\<not> ilog2 x \<le> ilog2 y"
    then have "ilog2 y + 1 \<le> ilog2 x" by simp
    then have "(2::real) powi (ilog2 y + 1) \<le> 2 powi (ilog2 x)"
      by (simp add: power_int_increasing)
    then show False using lt by linarith
  qed
qed

lemma fl_mono_pos:
  assumes "0 < x" "x \<le> y" "1 \<le> p"
  shows "fl p x \<le> fl p y"
proof (cases "ilog2 x = ilog2 y")
  case True
  let ?u = "(2::real) powi (ilog2 y - int p + 1)"
  have "x / ?u \<le> y / ?u" using assms(2) by (simp add: divide_right_mono)
  then have "rne (x / ?u) \<le> rne (y / ?u)" by (rule rne_mono)
  then have "of_int (rne (x / ?u)) * ?u \<le> of_int (rne (y / ?u)) * ?u"
    by (simp add: mult_right_mono)
  then show ?thesis using assms True by (simp add: fl_pos_eq)
next
  case False
  then have "ilog2 x + 1 \<le> ilog2 y" using ilog2_mono [OF assms(1,2)] by simp
  then have "(2::real) powi (ilog2 x + 1) \<le> 2 powi (ilog2 y)"
    by (simp add: power_int_increasing)
  moreover have "fl p x \<le> 2 powi (ilog2 x + 1)" using assms by (simp add: fl_pos_upper)
  moreover have "2 powi (ilog2 y) \<le> fl p y" using assms by (simp add: fl_pos_lower)
  ultimately show ?thesis by linarith
qed

lemma fl_mono:
  assumes "x \<le> y" "1 \<le> p"
  shows "fl p x \<le> fl p y"
proof -
  consider "0 < x" | "x = 0" | "x < 0" "0 \<le> y" | "x < 0" "y < 0" by linarith
  then show ?thesis
  proof cases
    case 1
    then show ?thesis using assms by (simp add: fl_mono_pos)
  next
    case 2
    then show ?thesis using assms fl_pos_nonneg [of y p] by (cases "y = 0") auto
  next
    case 3
    have "0 < fl p (- x)" using 3 assms by (simp add: fl_pos_nonneg)
    then have "fl p x < 0" by (simp add: fl_minus)
    moreover have "0 \<le> fl p y" using 3 assms fl_pos_nonneg [of y p] by (cases "y = 0") auto
    ultimately show ?thesis by linarith
  next
    case 4
    then have "fl p (- y) \<le> fl p (- x)" using assms by (intro fl_mono_pos) auto
    then show ?thesis by (simp add: fl_minus)
  qed
qed

lemma fl_err_pos:
  assumes "0 < x"
  shows "\<bar>fl p x - x\<bar> \<le> 2 powi (ilog2 x - int p)"
proof -
  let ?u = "(2::real) powi (ilog2 x - int p + 1)"
  have "\<bar>of_int (rne (x / ?u)) - x / ?u\<bar> * ?u \<le> 1 / 2 * ?u"
    using rne_err [of "x / ?u"] by (intro mult_right_mono) simp_all
  moreover have "\<bar>of_int (rne (x / ?u)) - x / ?u\<bar> * ?u = \<bar>of_int (rne (x / ?u)) * ?u - x\<bar>"
  proof -
    have "\<bar>of_int (rne (x / ?u)) - x / ?u\<bar> * ?u = \<bar>(of_int (rne (x / ?u)) - x / ?u) * ?u\<bar>"
      by (simp add: abs_mult)
    also have "(of_int (rne (x / ?u)) - x / ?u) * ?u = of_int (rne (x / ?u)) * ?u - x"
      by (simp add: left_diff_distrib)
    finally show ?thesis .
  qed
  moreover have "1 / 2 * ?u = 2 powi (ilog2 x - int p)"
    by (simp add: power_int_add)
  ultimately show ?thesis using assms by (simp add: fl_pos_eq)
qed

lemma fl_rel_err_pos:
  assumes "0 < x"
  shows "\<bar>fl p x - x\<bar> \<le> x / 2 ^ p"
proof -
  have "2 powi (ilog2 x - int p) = 2 powi (ilog2 x) / (2::real) ^ p"
    by (simp add: power_int_diff)
  also have "\<dots> \<le> x / 2 ^ p" using ilog2_lower [OF assms] by (simp add: divide_right_mono)
  finally show ?thesis using fl_err_pos [OF assms, of p] by linarith
qed

lemma fl_rel_err: "\<bar>fl p x - x\<bar> \<le> \<bar>x\<bar> / 2 ^ p"
proof -
  consider "0 < x" | "x = 0" | "x < 0" by linarith
  then show ?thesis
  proof cases
    case 1
    then show ?thesis using fl_rel_err_pos [of x p] by simp
  next
    case 2
    then show ?thesis by simp
  next
    case 3
    then have "\<bar>fl p (- x) - (- x)\<bar> \<le> (- x) / 2 ^ p" by (intro fl_rel_err_pos) simp
    then show ?thesis using 3 by (simp add: fl_minus abs_if split: if_splits)
  qed
qed

lemma fl_of_int_pos:
  assumes "0 < n" "n < 2 ^ p"
  shows "fl p (of_int n) = of_int n"
proof -
  let ?x = "real_of_int n"
  have x: "0 < ?x" using assms(1) by simp
  have "?x < 2 ^ p" using assms(2) by (metis of_int_less_iff of_int_numeral of_int_power)
  then have "2 powi (ilog2 ?x) < (2::real) ^ p"
    using ilog2_lower [OF x] by linarith
  then have "2 powi (ilog2 ?x) < (2::real) powi (int p)" by simp
  then have e: "ilog2 ?x < int p"
  proof -
    have "\<not> int p \<le> ilog2 ?x"
    proof
      assume "int p \<le> ilog2 ?x"
      then have "(2::real) powi (int p) \<le> 2 powi (ilog2 ?x)"
        by (intro power_int_increasing) simp_all
      then show False using \<open>2 powi (ilog2 ?x) < (2::real) powi (int p)\<close> by linarith
    qed
    then show ?thesis by simp
  qed
  define k where "k = nat (int p - 1 - ilog2 ?x)"
  have u: "(2::real) powi (ilog2 ?x - int p + 1) = 1 / 2 ^ k"
  proof -
    have "ilog2 ?x - int p + 1 = - int k" using e by (simp add: k_def)
    then have "(2::real) powi (ilog2 ?x - int p + 1) = 2 powi (- int k)" by (simp only:)
    also have "\<dots> = 1 / 2 ^ k" by (simp add: power_int_minus inverse_eq_divide)
    finally show ?thesis .
  qed
  have "?x / (1 / 2 ^ k) = of_int (n * 2 ^ k)" by simp
  then have "rne (?x / (1 / 2 ^ k)) = n * 2 ^ k" by (simp only: rne_of_int)
  then show ?thesis using x by (simp add: fl_pos_eq u)
qed

lemma fl_of_int:
  assumes "\<bar>n\<bar> < 2 ^ p"
  shows "fl p (of_int n) = of_int n"
proof -
  consider "0 < n" | "n = 0" | "n < 0" by linarith
  then show ?thesis
  proof cases
    case 1
    then show ?thesis using assms by (simp add: fl_of_int_pos)
  next
    case 2
    then show ?thesis by simp
  next
    case 3
    then have "fl p (of_int (- n)) = of_int (- n)" using assms by (intro fl_of_int_pos) simp_all
    then show ?thesis using fl_minus [of p "of_int n"] by simp
  qed
qed

subsection \<open>Fonts and drawing\<close>

lemma first_success_Nil [simp]: "first_success [] = None"
  by (simp add: first_success_def)

lemma first_success_Cons [simp]:
  "first_success (r # rs) = (case r of Inl e \<Rightarrow> first_success rs | Inr f \<Rightarrow> Some f)"
  by (cases r) (simp_all add: first_success_def)

lemma first_success_append:
  "first_success (xs @ ys) = (case first_success xs of Some f \<Rightarrow> Some f | None \<Rightarrow> first_success ys)"
  by (induction xs) (simp_all split: sum.splits)

lemma try_paths_first:
  "try_paths E ps sz =
     first_success (map (\<lambda>p. if path_exists E p then truetype E p sz else Inl OSError) ps)"
  by (induction ps) (simp_all split: sum.splits)

lemma try_names_first:
  "try_names E ns sz = first_success (map (\<lambda>n. truetype E n sz) ns)"
  by (induction ns) (simp_all split: sum.splits)

lemma find_font_first:
  "(case find_font E sz of Some f \<Rightarrow> Some f
    | None \<Rightarrow> (case load_default E of Inl e \<Rightarrow> None | Inr f \<Rightarrow> Some f))
   = first_success (font_attempts E sz)"
  by (simp add: find_font_def font_attempts_def first_success_append try_paths_first
      try_names_first split: option.splits sum.splits)

lemma first_success_None: "first_success rs = None \<longleftrightarrow> (\<forall>r \<in> set rs. isl r)"
  by (induction rs) (auto split: sum.splits)

lemma draw_lines_size:
  "bm_width (draw_lines img y ch col ls) = bm_width img \<and>
   bm_height (draw_lines img y ch col ls) = bm_height img"
  by (induction ls arbitrary: img y) simp_all

lemma draw_lines_texts:
  "texts (draw_lines img y ch col ls)
     = texts img @ map (\<lambda>i. ((0, y + i * ch), ls ! i, col)) [0..<length ls]"
proof (induction ls arbitrary: img y)
  case Nil
  then show ?case by simp
next
  case (Cons l ls)
  have "map (\<lambda>i. ((0::nat, y + i * ch), (l # ls) ! i, col)) [0..<length (l # ls)]
        = ((0, y), l, col) # map (\<lambda>i. ((0, y + ch + i * ch), ls ! i, col)) [0..<length ls]"
    by (simp add: upt_conv_Cons map_Suc_upt [symmetric] del: upt_Suc add: add.assoc)
  then show ?case using Cons.IH [of "img\<lparr>texts := texts img @ [((0, y), l, col)]\<rparr>" "y + ch"]
    by simp
qed

lemma ascii_bitmap_Cons:
  "\<exists>img. ascii_bitmap f (l # rest) bg fg = Inr img
     \<and> bm_width img = fst (char_size f) * length l
     \<and> bm_height img = snd (char_size f) * length (l # rest)
     \<and> background img = bg"
proof -
  obtain cw ch where cs: "char_size f = (cw, ch)" by (cases "char_size f")
  have bg: "background (draw_lines img y c col ls) = background img" for img y c col ls
    by (induction ls arbitrary: img y) simp_all
  show ?thesis
    by (simp add: ascii_bitmap_def cs draw_lines_size bg del: draw_lines.simps)
qed

subsection \<open>Samples, indices and the new height\<close>

lemma f32_mono: "x \<le> y \<Longrightarrow> f32 x \<le> f32 y"
  by (simp add: f32_def fl_mono)

lemma f64_mono: "x \<le> y \<Longrightarrow> f64 x \<le> f64 y"
  by (simp add: f64_def fl_mono)

lemma f32_of_int: "\<bar>n\<bar> < 2 ^ 24 \<Longrightarrow> f32 (of_int n) = of_int n"
  by (simp add: f32_def fl_of_int)

lemma f64_of_int: "\<bar>n\<bar> < 2 ^ 53 \<Longrightarrow> f64 (of_int n) = of_int n"
  by (simp add: f64_def fl_of_int)

lemma f32_numeral [simp]: "f32 0 = 0" "f32 1 = 1" "f32 69 = 69" "f32 255 = 255"
  using f32_of_int [of 0] f32_of_int [of 1] f32_of_int [of 69] f32_of_int [of 255] by simp_all

lemma f64_zero [simp]: "f64 0 = 0"
  by (simp add: f64_def)

lemma f64_nonneg: "0 \<le> x \<Longrightarrow> 0 \<le> f64 x"
  using f64_mono [of 0 x] by simp

lemma f64_upper:
  assumes "0 \<le> x"
  shows "f64 x \<le> x * (1 + 1 / 2 ^ 53)"
proof -
  have "\<bar>fl 53 x - x\<bar> \<le> \<bar>x\<bar> / 2 ^ 53" by (rule fl_rel_err)
  then have "fl 53 x \<le> x + x / 2 ^ 53" using assms by linarith
  then show ?thesis by (simp add: f64_def algebra_simps)
qed

lemma f64_lower:
  assumes "0 \<le> x"
  shows "x * (1 - 1 / 2 ^ 53) \<le> f64 x"
proof -
  have "\<bar>fl 53 x - x\<bar> \<le> \<bar>x\<bar> / 2 ^ 53" by (rule fl_rel_err)
  then have "x - x / 2 ^ 53 \<le> fl 53 x" using assms by linarith
  then show ?thesis by (simp add: f64_def algebra_simps)
qed

lemma f32_err: "\<bar>f32 x - x\<bar> \<le> \<bar>x\<bar> / 2 ^ 24"
  unfolding f32_def by (rule fl_rel_err)

lemma f64_le_pow2:
  assumes "0 \<le> x" "x \<le> 2 ^ 62"
  shows "\<bar>f64 x\<bar> < 2 ^ 1024"
proof -
  have "f64 x \<le> x * (1 + 1 / 2 ^ 53)" by (rule f64_upper [OF assms(1)])
  also have "\<dots> \<le> 2 ^ 62 * (1 + 1 / 2 ^ 53)" using assms(2) by (intro mult_right_mono) simp_all
  also have "\<dots> < 2 ^ 1024" by simp
  finally show ?thesis using f64_nonneg [OF assms(1)] by linarith
qed

lemma sample_bounds: "0 \<le> real (unat (p :: 8 word)) \<and> real (unat p) \<le> 255"
proof -
  have "unat p \<le> 255" using unsigned_less [of p, where 'a = nat] by simp
  then have "real (unat p) \<le> real 255" by (rule of_nat_mono)
  then show ?thesis by (simp del: of_nat_unat)
qed

lemma f32_sample: "f32 (real (unat (p :: 8 word))) = real (unat p)"
proof -
  have "real (unat p) \<le> 255" using sample_bounds [of p] by blast
  then have "\<bar>int (unat p)\<bar> < 2 ^ 24" by (simp del: of_nat_unat)
  then have "f32 (of_int (int (unat p))) = of_int (int (unat p))" by (rule f32_of_int)
  then show ?thesis by (simp del: of_nat_unat)
qed

lemma f32_sample_shift: "f32 (real (unat (p :: 8 word)) - 128) = real (unat p) - 128"
proof -
  have "real (unat p) \<le> 255" using sample_bounds [of p] by blast
  then have "\<bar>int (unat p) - 128\<bar> < 2 ^ 24" by (simp del: of_nat_unat)
  then have "f32 (of_int (int (unat p) - 128)) = of_int (int (unat p) - 128)" by (rule f32_of_int)
  then show ?thesis by (simp del: of_nat_unat)
qed

lemma new_height_defined:
  assumes "1 \<le> w" "h < 2 ^ 31" "0 \<le> ow" "ow < 2 ^ 31"
  shows "new_height ow w h
           = Inr \<lfloor>f64 (f64 (of_int ow * f64 (real h / real w)) * (1 / 2))\<rfloor>
         \<and> 0 \<le> f64 (f64 (of_int ow * f64 (real h / real w)) * (1 / 2))"
proof -
  define a where "a = f64 (real h / real w)"
  have k: "f64 (of_int ow) = of_int ow" using assms(3,4) by (intro f64_of_int) simp
  have x: "0 \<le> real h / real w" by simp
  have "real h / real w \<le> real h" using assms(1) by (simp add: field_simps mult_le_cancel_left1)
  moreover have "real h \<le> 2 ^ 31" using assms(2) by (metis less_imp_le of_nat_le_iff of_nat_numeral of_nat_power)
  ultimately have x31: "real h / real w \<le> 2 ^ 31" by linarith
  have "f64 (of_int (2 ^ 31)) = of_int (2 ^ 31)" by (rule f64_of_int) simp
  then have "f64 (2 ^ 31) = 2 ^ 31" by simp
  then have a31: "a \<le> 2 ^ 31" using f64_mono [OF x31] by (simp add: a_def)
  have a0: "0 \<le> a" unfolding a_def by (rule f64_nonneg [OF x])
  have "real_of_int ow \<le> 2 ^ 31" using assms(4) by (metis less_imp_le of_int_le_iff of_int_numeral of_int_power)
  then have "of_int ow * a \<le> 2 ^ 31 * 2 ^ 31" using a31 a0 assms(3) by (intro mult_mono) simp_all
  then have p62: "of_int ow * a \<le> 2 ^ 62" by simp
  have p0: "0 \<le> of_int ow * a" using a0 assms(3) by simp
  have ov1: "\<not> f64_overflow (real h / real w)"
    using f64_le_pow2 [OF x] x31 by (simp add: f64_overflow_def)
  have ov2: "\<not> f64_overflow (of_int ow)"
    using f64_le_pow2 [of "of_int ow"] assms(3) \<open>real_of_int ow \<le> 2 ^ 31\<close>
    by (simp add: f64_overflow_def)
  have ov3: "\<not> 2 ^ 1024 \<le> \<bar>f64 (of_int ow * a)\<bar>"
    using f64_le_pow2 [OF p0 p62] by simp
  have "0 \<le> f64 (of_int ow * a) * (1 / 2)" using f64_nonneg [OF p0] by simp
  then have c0: "0 \<le> f64 (f64 (of_int ow * a) * (1 / 2))" by (rule f64_nonneg)
  then show ?thesis using assms(1) ov1 ov2 ov3 k
    by (simp add: new_height_def Let_def py_int_def a_def [symmetric])
qed

lemma f64_below_two: "f64 (2 - 1 / 2 ^ 52) = 2 - 1 / 2 ^ 52"
  unfolding f64_def by code_simp

lemma f64_below_one: "f64 (1 - 1 / 2 ^ 53) = 1 - 1 / 2 ^ 53"
  unfolding f64_def by code_simp

lemma new_height_zero:
  assumes w: "1 \<le> w" "w < 2 ^ 31" and h: "h < 2 ^ 31" and ow: "0 \<le> ow" "ow < 2 ^ 31"
      and small: "ow * int h < 2 * int w"
  shows "new_height ow w h = Inr 0"
proof -
  define u :: real where "u = 1 / 2 ^ 53"
  define a where "a = f64 (real h / real w)"
  have wpos: "0 < real w" using w(1) by simp
  have ow': "0 \<le> real_of_int ow" using ow(1) by simp
  have a: "0 \<le> a" "a \<le> real h / real w * (1 + u)"
    unfolding a_def u_def by (rule f64_nonneg, simp) (rule f64_upper, simp)
  have "of_int ow * a \<le> of_int ow * (real h / real w * (1 + u))"
    using a(2) ow' by (rule mult_left_mono)
  also have "\<dots> = (of_int ow * real h / real w) * (1 + u)" by simp
  finally have ka: "of_int ow * a \<le> (of_int ow * real h / real w) * (1 + u)" .
  have "ow * int h \<le> 2 * int w - 1" using small by simp
  then have "real_of_int (ow * int h) \<le> real_of_int (2 * int w - 1)"
    by (rule of_int_le_iff [THEN iffD2])
  then have "of_int ow * real h \<le> 2 * real w - 1" by simp
  then have "of_int ow * real h / real w \<le> (2 * real w - 1) / real w"
    using wpos by (simp add: divide_right_mono)
  also have "\<dots> = 2 - 1 / real w" using wpos by (simp add: field_simps)
  also have "\<dots> \<le> 2 - 1 / 2 ^ 31"
  proof -
    have "real w \<le> 2 ^ 31"
      using w(2) by (metis less_imp_le of_nat_le_iff of_nat_numeral of_nat_power)
    then have "1 / 2 ^ 31 \<le> 1 / real w" using wpos by (simp add: frac_le)
    then show ?thesis by simp
  qed
  finally have q: "of_int ow * real h / real w \<le> 2 - 1 / 2 ^ 31" .
  have "(of_int ow * real h / real w) * (1 + u) \<le> (2 - 1 / 2 ^ 31) * (1 + u)"
    using q by (intro mult_right_mono) (simp_all add: u_def)
  also have "\<dots> \<le> 2 - 1 / 2 ^ 52" by (simp add: u_def)
  finally have "of_int ow * a \<le> 2 - 1 / 2 ^ 52" using ka by linarith
  then have "f64 (of_int ow * a) \<le> f64 (2 - 1 / 2 ^ 52)" by (rule f64_mono)
  then have "f64 (of_int ow * a) \<le> 2 - 1 / 2 ^ 52" by (simp only: f64_below_two)
  then have "f64 (of_int ow * a) * (1 / 2) \<le> 1 - 1 / 2 ^ 53" by simp
  then have "f64 (f64 (of_int ow * a) * (1 / 2)) \<le> f64 (1 - 1 / 2 ^ 53)" by (rule f64_mono)
  then have "f64 (f64 (of_int ow * a) * (1 / 2)) \<le> 1 - 1 / 2 ^ 53"
    by (simp only: f64_below_one)
  then have lt: "f64 (f64 (of_int ow * a) * (1 / 2)) < 1" by simp
  have "0 \<le> f64 (f64 (of_int ow * a) * (1 / 2))"
    using new_height_defined [OF w(1) h ow] by (simp add: a_def)
  then have "\<lfloor>f64 (f64 (of_int ow * a) * (1 / 2))\<rfloor> = 0" using lt by (simp add: floor_eq_iff)
  then show ?thesis using new_height_defined [OF w(1) h ow] by (simp add: a_def)
qed

lemma new_height_near:
  assumes "1 \<le> w" "0 \<le> ow"
  shows "of_int ow * real h / (2 * real w) * (1 - 1 / 2 ^ 51)
           \<le> f64 (f64 (of_int ow * f64 (real h / real w)) * (1 / 2))
         \<and> f64 (f64 (of_int ow * f64 (real h / real w)) * (1 / 2))
           \<le> of_int ow * real h / (2 * real w) * (1 + 1 / 2 ^ 51)"
proof -
  define u :: real where "u = 1 / 2 ^ 53"
  define x where "x = real h / real w"
  define a where "a = f64 x"
  define y where "y = of_int ow * a"
  define z where "z = f64 y * (1 / 2)"
  define E where "E = of_int ow * real h / (2 * real w)"
  have k: "0 \<le> real_of_int ow" using assms(2) by simp
  have x0: "0 \<le> x" by (simp add: x_def)
  have a0: "0 \<le> a" unfolding a_def by (rule f64_nonneg [OF x0])
  have y0: "0 \<le> y" using k a0 by (simp add: y_def)
  have z0: "0 \<le> z" using f64_nonneg [OF y0] by (simp add: z_def)
  have E0: "0 \<le> E" using k by (simp add: E_def)
  have Ex: "E = of_int ow * x / 2" by (simp add: E_def x_def)
  have u0: "0 \<le> 1 - u" "0 \<le> 1 + u" by (simp_all add: u_def)
  have au: "a \<le> x * (1 + u)" unfolding a_def u_def by (rule f64_upper [OF x0])
  have al: "x * (1 - u) \<le> a" unfolding a_def u_def by (rule f64_lower [OF x0])
  have yu: "y \<le> 2 * E * (1 + u)"
    using mult_left_mono [OF au k] by (simp add: y_def Ex algebra_simps)
  have yl: "2 * E * (1 - u) \<le> y"
    using mult_left_mono [OF al k] by (simp add: y_def Ex algebra_simps)
  have "f64 y \<le> y * (1 + u)" unfolding u_def by (rule f64_upper [OF y0])
  also have "\<dots> \<le> 2 * E * (1 + u) * (1 + u)" using yu u0 by (intro mult_right_mono)
  finally have zu: "z \<le> E * (1 + u) * (1 + u)" by (simp add: z_def)
  have "2 * E * (1 - u) * (1 - u) \<le> y * (1 - u)" using yl u0 by (intro mult_right_mono)
  also have "\<dots> \<le> f64 y" unfolding u_def by (rule f64_lower [OF y0])
  finally have zl: "E * (1 - u) * (1 - u) \<le> z" by (simp add: z_def)
  have "f64 z \<le> z * (1 + u)" unfolding u_def by (rule f64_upper [OF z0])
  also have "\<dots> \<le> E * (1 + u) * (1 + u) * (1 + u)" using zu u0 by (intro mult_right_mono)
  also have "\<dots> = E * ((1 + u) * (1 + u) * (1 + u))" by simp
  also have "\<dots> \<le> E * (1 + 1 / 2 ^ 51)"
    using E0 by (intro mult_left_mono) (simp_all add: u_def)
  finally have up: "f64 z \<le> E * (1 + 1 / 2 ^ 51)" .
  have "E * (1 - 1 / 2 ^ 51) \<le> E * ((1 - u) * (1 - u) * (1 - u))"
    using E0 by (intro mult_left_mono) (simp_all add: u_def)
  also have "\<dots> = E * (1 - u) * (1 - u) * (1 - u)" by simp
  also have "\<dots> \<le> z * (1 - u)" using zl u0 by (intro mult_right_mono)
  also have "\<dots> \<le> f64 z" unfolding u_def by (rule f64_lower [OF z0])
  finally have lo: "E * (1 - 1 / 2 ^ 51) \<le> f64 z" .
  show ?thesis using lo up by (simp add: z_def y_def a_def x_def E_def)
qed

lemma new_height_below_exact:
  "new_height 98 49 1 = Inr 0 \<and> \<lfloor>real_of_int 98 * real 1 / (2 * real 49)\<rfloor> = 1"
proof -
  have "\<lfloor>f64 (f64 (of_int 98 * f64 (real 1 / real 49)) * (1 / 2))\<rfloor> = 0"
    unfolding f64_def by code_simp
  then show ?thesis using new_height_defined [of 49 1 98] by simp
qed

lemma contrast_error:
  assumes c: "0 \<le> c" "c \<le> 5" and d: "\<bar>d\<bar> \<le> 128"
  shows "\<bar>f32 (f32 (d * f32 c) + 128) - (d * c + 128)\<bar> \<le> 1 / 2 ^ 12"
proof -
  define c' where "c' = f32 c"
  define p where "p = f32 (d * c')"
  define s where "s = f32 (p + 128)"
  define e :: real where "e = 1 / 2 ^ 24"
  have e: "0 \<le> e" "e \<le> 1 / 1000" by (simp_all add: e_def)
  have err: "\<bar>f32 x - x\<bar> \<le> \<bar>x\<bar> * e" for x
    using f32_err [of x] by (simp add: e_def)
  have "\<bar>c' - c\<bar> \<le> \<bar>c\<bar> * e" unfolding c'_def by (rule err)
  also have "\<dots> \<le> 5 * e" using c e by (intro mult_right_mono) simp_all
  finally have e1: "\<bar>c' - c\<bar> \<le> 5 * e" .
  then have c6: "\<bar>c'\<bar> \<le> 6" using c e by linarith
  have "\<bar>d * c' - d * c\<bar> = \<bar>d\<bar> * \<bar>c' - c\<bar>"
    by (simp add: abs_mult right_diff_distrib [symmetric])
  also have "\<dots> \<le> 128 * (5 * e)" using d e1 by (intro mult_mono) simp_all
  finally have e2: "\<bar>d * c' - d * c\<bar> \<le> 640 * e" by simp
  have "\<bar>d * c'\<bar> = \<bar>d\<bar> * \<bar>c'\<bar>" by (rule abs_mult)
  also have "\<dots> \<le> 128 * 6" using d c6 by (intro mult_mono) simp_all
  finally have dc: "\<bar>d * c'\<bar> \<le> 768" by simp
  have "\<bar>p - d * c'\<bar> \<le> \<bar>d * c'\<bar> * e" unfolding p_def by (rule err)
  also have "\<dots> \<le> 768 * e" using dc e by (intro mult_right_mono) simp_all
  finally have e3: "\<bar>p - d * c'\<bar> \<le> 768 * e" .
  then have p1: "\<bar>p + 128\<bar> \<le> 897" using dc e by linarith
  have "\<bar>s - (p + 128)\<bar> \<le> \<bar>p + 128\<bar> * e" unfolding s_def by (rule err)
  also have "\<dots> \<le> 897 * e" using p1 e by (intro mult_right_mono) simp_all
  finally have e4: "\<bar>s - (p + 128)\<bar> \<le> 897 * e" .
  have "\<bar>s - (d * c + 128)\<bar> \<le> 4096 * e" using e2 e3 e4 e by linarith
  also have "\<dots> = 1 / 2 ^ 12" by (simp add: e_def)
  finally show ?thesis by (simp add: s_def p_def c'_def)
qed

lemma ASCII_CHARS_length: "length ASCII_CHARS = 70"
  by (simp add: ASCII_CHARS_def)

lemma normalized_unit_real:
  assumes "0 \<le> v" "v \<le> 255"
  shows "0 \<le> f32 (f32 v / 255) \<and> f32 (f32 v / 255) \<le> 1"
proof -
  have hi: "f32 v \<le> 255" using f32_mono [OF assms(2)] by simp
  have lo: "0 \<le> f32 v" using f32_mono [OF assms(1)] by simp
  have "f32 (f32 v / 255) \<le> f32 1" using hi by (intro f32_mono) simp
  moreover have "f32 0 \<le> f32 (f32 v / 255)" using lo by (intro f32_mono) simp
  ultimately show ?thesis by simp
qed

lemma normalized_unit:
  "0 \<le> f32 (f32 (real (unat (p :: 8 word))) / 255) \<and> f32 (f32 (real (unat p)) / 255) \<le> 1"
  using sample_bounds [of p] by (intro normalized_unit_real) blast+

lemma char_index_range:
  assumes "power_in_unit pw gamma"
  shows "0 \<le> char_index pw gamma p \<and> char_index pw gamma p \<le> 69"
proof -
  let ?n = "f32 (f32 (real (unat p)) / 255)"
  have y: "0 \<le> pw ?n gamma" "pw ?n gamma \<le> 1"
    using assms normalized_unit [of p] by (auto simp: power_in_unit_def)
  have "f32 (pw ?n gamma * 69) \<le> f32 69" using y by (intro f32_mono) simp
  moreover have "f32 0 \<le> f32 (pw ?n gamma * 69)" using y by (intro f32_mono) simp
  ultimately have "0 \<le> f32 (pw ?n gamma * 69)" "f32 (pw ?n gamma * 69) \<le> 69"
    by simp_all
  then show ?thesis
    by (simp add: char_index_def ASCII_CHARS_length py_int_def Let_def floor_le_iff)
qed

lemma py_int_mono: "x \<le> y \<Longrightarrow> py_int x \<le> py_int y"
proof -
  assume xy: "x \<le> y"
  consider "0 \<le> x" | "x < 0" "0 \<le> y" | "y < 0" by linarith
  then show ?thesis
  proof cases
    case 1
    then show ?thesis using xy by (simp add: py_int_def floor_mono)
  next
    case 2
    have "\<lceil>x\<rceil> \<le> 0" using 2 by (simp add: ceiling_le_iff)
    moreover have "0 \<le> \<lfloor>y\<rfloor>" using 2 by simp
    moreover have "py_int x = \<lceil>x\<rceil>" "py_int y = \<lfloor>y\<rfloor>"
      using 2 by (simp_all add: py_int_def)
    ultimately show ?thesis by linarith
  next
    case 3
    then show ?thesis using xy by (simp add: py_int_def ceiling_mono)
  qed
qed

lemma char_index_mono_power:
  assumes "\<And>x y. 0 \<le> x \<Longrightarrow> x \<le> y \<Longrightarrow> y \<le> 1 \<Longrightarrow> pw x gamma \<le> pw y gamma"
      and "p \<le> q"
  shows "char_index pw gamma p \<le> char_index pw gamma q"
proof -
  let ?n = "\<lambda>v :: 8 word. f32 (f32 (real (unat v)) / 255)"
  have "unat p \<le> unat q" using assms(2) by (simp add: word_le_nat_alt)
  then have "real (unat p) \<le> real (unat q)" by (rule of_nat_mono)
  then have "f32 (real (unat p)) / 255 \<le> f32 (real (unat q)) / 255"
    by (intro divide_right_mono f32_mono) simp_all
  then have "?n p \<le> ?n q" by (rule f32_mono)
  then have "pw (?n p) gamma \<le> pw (?n q) gamma"
    using normalized_unit [of p] normalized_unit [of q] by (intro assms(1)) auto
  then have "f32 (pw (?n p) gamma * 69) \<le> f32 (pw (?n q) gamma * 69)"
    by (intro f32_mono) simp
  then have "py_int (f32 (pw (?n p) gamma * 69)) \<le> py_int (f32 (pw (?n q) gamma * 69))"
    by (rule py_int_mono)
  then show ?thesis by (simp add: char_index_def ASCII_CHARS_length Let_def del: of_nat_unat)
qed

lemma char_index_le_power:
  assumes "\<And>x. 0 \<le> x \<Longrightarrow> x \<le> 1 \<Longrightarrow> pw x g \<le> pw x g'"
  shows "char_index pw g p \<le> char_index pw g' p"
proof -
  let ?n = "f32 (f32 (real (unat p)) / 255)"
  have "pw ?n g \<le> pw ?n g'" using normalized_unit [of p] by (intro assms) auto
  then have "f32 (pw ?n g * 69) \<le> f32 (pw ?n g' * 69)" by (intro f32_mono) simp
  then have "py_int (f32 (pw ?n g * 69)) \<le> py_int (f32 (pw ?n g' * 69))"
    by (rule py_int_mono)
  then show ?thesis by (simp add: char_index_def ASCII_CHARS_length Let_def del: of_nat_unat)
qed

lemma real_power_in_unit: "0 \<le> gamma \<Longrightarrow> power_in_unit real_power gamma"
  by (auto simp: power_in_unit_def real_power_def powr_le1)

lemma f32_half_gray: "f32 (f32 128 / 255) = 8421505 / 16777216"
proof -
  have "f32 128 = 128" unfolding f32_def by code_simp
  moreover have "f32 (128 / 255) = 8421505 / 16777216" unfolding f32_def by code_simp
  ultimately show ?thesis by simp
qed

lemma char_index_gray_1: "char_index real_power 1 128 = 34"
proof -
  have "py_int (f32 (8421505 / 16777216 * 69)) = 34" unfolding f32_def by code_simp
  then show ?thesis
    by (simp add: char_index_def Let_def f32_half_gray ASCII_CHARS_length real_power_def)
qed

lemma char_index_gray_2: "char_index real_power 2 128 = 17"
proof -
  have "py_int (f32 ((8421505 / 16777216)\<^sup>2 * 69)) = 17" unfolding f32_def by code_simp
  then show ?thesis
    by (simp add: char_index_def Let_def f32_half_gray ASCII_CHARS_length real_power_def)
qed

subsection \<open>The conversion and the example environment\<close>

declare range_step.simps [simp del]

lemma range_step_multiples:
  "0 < st \<Longrightarrow> range_step i (i + st * k) st = map (\<lambda>j. i + st * j) [0..<k]"
proof (induction k arbitrary: i)
  case 0
  then show ?case by (simp add: range_step.simps [of i])
next
  case (Suc k)
  have "range_step i (i + st * Suc k) st = i # range_step (i + st) ((i + st) + st * k) st"
    using Suc.prems by (subst range_step.simps) (simp add: add.assoc)
  also have "\<dots> = i # map (\<lambda>j. (i + st) + st * j) [0..<k]"
    using Suc.IH [OF Suc.prems, of "i + st"] by simp
  also have "\<dots> = map (\<lambda>j. i + st * j) [0..<Suc k]"
    by (simp add: upt_conv_Cons map_Suc_upt [symmetric] add.assoc del: upt_Suc)
  finally show ?case .
qed

lemma chunks_concat: "concat (map (\<lambda>j. take w (drop (w * j) s)) [0..<k]) = take (w * k) s"
proof (induction k)
  case 0
  then show ?case by simp
next
  case (Suc k)
  have "take (w + w * k) s = take (w * k + w) s" by (simp add: add.commute)
  also have "\<dots> = take (w * k) s @ take w (drop (w * k) s)" by (rule take_add)
  finally show ?case using Suc by simp
qed

lemma split_lines_shape:
  assumes "0 < w" "length s = w * k"
  shows "\<exists>ls. split_lines s (int w) = Inr ls \<and> length ls = k \<and> (\<forall>l \<in> set ls. length l = w)
           \<and> concat ls = s"
proof -
  have r: "range_step 0 (length s) w = map (\<lambda>j. w * j) [0..<k]"
    using range_step_multiples [OF assms(1), of 0 k] assms(2) by simp
  have "length (take w (drop (w * j) s)) = w" if "j < k" for j
  proof -
    have "w * j + w \<le> w * k" using that mult_le_mono2 [of "Suc j" k w] by simp
    then show ?thesis using assms(2) by simp
  qed
  moreover have "concat (map (\<lambda>j. take w (drop (w * j) s)) [0..<k]) = s"
    using assms(2) by (simp add: chunks_concat)
  ultimately show ?thesis using assms(1) by (auto simp: split_lines_def r comp_def)
qed

lemma join_chars_length: "join_chars ixs = Inr cs \<Longrightarrow> length cs = length ixs"
  by (induction ixs arbitrary: cs) (auto split: sum.splits)

lemma join_chars_in_range:
  "\<forall>i \<in> set ixs. 0 \<le> i \<and> i \<le> 69 \<Longrightarrow> \<exists>cs. join_chars ixs = Inr cs"
  by (induction ixs) (auto simp: py_index_def ASCII_CHARS_length)

lemma concat_all_length:
  "\<forall>l \<in> set ls. length l = w \<Longrightarrow> length (concat ls) = length ls * w"
  by (induction ls) simp_all

lemma convert_Inr:
  assumes c: "resize_contract (image_resize E)"
      and g: "high_precision_image_to_ascii E image_path output_width contrast gamma = Inr grid"
  shows "\<exists>img nh r. image_open E image_path = Inr img
           \<and> new_height output_width (width img) (height img) = Inr nh
           \<and> 1 \<le> output_width \<and> 1 \<le> nh
           \<and> int (length grid) = nh
           \<and> (\<forall>l \<in> set grid. int (length l) = output_width)
           \<and> image_resize E (img\<lparr>pix := map (contrast_adjust contrast) (pix img)\<rparr>)
                 (output_width, nh) = Inr r
           \<and> int (width r) = output_width \<and> int (height r) = nh
           \<and> join_chars (map (char_index (np_power E) gamma) (pix r)) = Inr (concat grid)"
proof -
  from g obtain img where img: "image_open E image_path = Inr img"
    by (auto simp: high_precision_image_to_ascii_def split: sum.splits)
  let ?img = "img\<lparr>pix := map (contrast_adjust contrast) (pix img)\<rparr>"
  from g img obtain nh where nh: "new_height output_width (width img) (height img) = Inr nh"
    by (auto simp: high_precision_image_to_ascii_def Let_def split: sum.splits)
  from g img nh obtain r where r: "image_resize E ?img (output_width, nh) = Inr r"
    by (auto simp: high_precision_image_to_ascii_def Let_def split: sum.splits)
  from g img nh r obtain ascii_str where
    s: "join_chars (map (char_index (np_power E) gamma) (pix r)) = Inr ascii_str"
    and sp: "split_lines ascii_str output_width = Inr grid"
    by (auto simp: high_precision_image_to_ascii_def Let_def split: sum.splits)
  from c r have sz: "1 \<le> output_width" "1 \<le> nh" "int (width r) = output_width"
    "int (height r) = nh" "length (pix r) = width r * height r"
    unfolding resize_contract_def by blast+
  have len: "length ascii_str = nat output_width * nat nh"
    using join_chars_length [OF s] sz by auto
  obtain ls where ls: "split_lines ascii_str (int (nat output_width)) = Inr ls"
    "length ls = nat nh" "\<forall>l \<in> set ls. length l = nat output_width" "concat ls = ascii_str"
    using split_lines_shape [of "nat output_width" ascii_str "nat nh"] len sz(1) by auto
  then have "ls = grid" using sp sz(1) by simp
  then show ?thesis using img nh sz ls r s by auto
qed

lemma convert_returns:
  assumes a: "resize_accepts (image_resize E)"
      and p: "power_in_unit (np_power E) gamma"
      and c: "resize_contract (image_resize E)"
      and img: "image_open E image_path = Inr img"
      and nh: "new_height output_width (width img) (height img) = Inr nh"
      and pos: "1 \<le> output_width" "1 \<le> nh"
  shows "\<exists>grid. high_precision_image_to_ascii E image_path output_width contrast gamma = Inr grid"
proof -
  let ?img = "img\<lparr>pix := map (contrast_adjust contrast) (pix img)\<rparr>"
  obtain r where r: "image_resize E ?img (output_width, nh) = Inr r"
    using a pos unfolding resize_accepts_def by blast
  from c r have sz: "int (width r) = output_width"
    "int (height r) = nh" "length (pix r) = width r * height r"
    unfolding resize_contract_def by blast+
  have "\<forall>i \<in> set (map (char_index (np_power E) gamma) (pix r)). 0 \<le> i \<and> i \<le> 69"
    using char_index_range [OF p] by auto
  then obtain ascii_str where
    s: "join_chars (map (char_index (np_power E) gamma) (pix r)) = Inr ascii_str"
    using join_chars_in_range by blast
  have "\<exists>ls. split_lines ascii_str output_width = Inr ls"
    using pos(1) by (simp add: split_lines_def)
  then show ?thesis using img nh r s
    by (auto simp: high_precision_image_to_ascii_def Let_def)
qed

lemma convert_fails_small:
  assumes c: "resize_contract (image_resize E)"
      and img: "image_open E image_path = Inr img"
      and nh: "new_height output_width (width img) (height img) = Inr nh"
      and small: "output_width < 1 \<or> nh < 1"
  shows "\<exists>e. high_precision_image_to_ascii E image_path output_width contrast gamma = Inl e"
proof (cases "high_precision_image_to_ascii E image_path output_width contrast gamma")
  case (Inl e)
  then show ?thesis by blast
next
  case (Inr grid)
  then show ?thesis using convert_Inr [OF c Inr] img nh small by auto
qed

lemma generate_Inr:
  "generate_ascii_art E p w c g = Inr grid \<longleftrightarrow> high_precision_image_to_ascii E p w c g = Inr grid"
  by (simp add: generate_ascii_art_def wrap_def split: sum.splits)

lemma generate_Inl:
  "high_precision_image_to_ascii E p w c g = Inl e
     \<Longrightarrow> generate_ascii_art E p w c g = Inl (RuntimeError Generate e)"
  by (simp add: generate_ascii_art_def wrap_def)

lemma flat_resize_contract: "resize_contract flat_resize"
  by (auto simp: resize_contract_def flat_resize_def split: if_splits)

lemma flat_resize_accepts: "resize_accepts flat_resize"
  by (auto simp: resize_accepts_def flat_resize_def)

lemma whole_power_in_unit: "power_in_unit whole_power gamma"
  by (simp add: power_in_unit_def whole_power_def power_le_one)

lemma example_env_libs:
  "resize_contract (image_resize example_env) \<and> resize_accepts (image_resize example_env)
   \<and> power_in_unit (np_power example_env) gamma"
  by (simp add: example_env_def flat_resize_contract flat_resize_accepts
      whole_power_in_unit)

lemma example_contrast: "contrast_adjust 1 128 = 128" by code_simp

lemma example_index: "char_index whole_power 2 128 = 17" by code_simp

lemma example_height: "new_height 4 2 2 = Inr 2"
proof -
  have "\<lfloor>f64 (f64 (of_int 4 * f64 (real 2 / real 2)) * (1 / 2))\<rfloor> = 2"
    unfolding f64_def by code_simp
  then show ?thesis using new_height_defined [of 2 2 4] by simp
qed

lemma example_height_wide: "new_height 2 6 2 = Inr 0"
  using new_height_zero [of 6 2 2] by simp

lemma example_split: "split_lines ''qqqqqqqq'' 4 = Inr [''qqqq'', ''qqqq'']" by code_simp

lemma example_join: "join_chars (replicate 8 17) = Inr ''qqqqqqqq''" by code_simp

lemma example_square:
  "generate_ascii_art example_env ''square.png'' 4 1 2 = Inr [''qqqq'', ''qqqq'']"
  by (simp add: generate_ascii_art_def wrap_def high_precision_image_to_ascii_def
      example_env_def flat_resize_def example_contrast example_index
      example_height example_join example_split map_replicate_const)

lemma example_wide:
  "generate_ascii_art example_env ''wide.png'' 2 1 2 = Inl (RuntimeError Generate ValueError)"
  by (simp add: generate_ascii_art_def wrap_def high_precision_image_to_ascii_def
      example_env_def flat_resize_def example_height_wide)

lemma example_missing:
  "generate_ascii_art example_env ''missing.png'' 4 1 2 = Inl (RuntimeError Generate OSError)"
  by (simp add: generate_ascii_art_def wrap_def high_precision_image_to_ascii_def
      example_env_def)

lemma example_height_zero: "new_height 0 2 2 = Inr 0"
  using new_height_zero [of 2 2 0] by simp

lemma example_zero_width:
  "generate_ascii_art example_env ''square.png'' 0 1 2 = Inl (RuntimeError Generate ValueError)"
  by (simp add: generate_ascii_art_def wrap_def high_precision_image_to_ascii_def
      example_env_def flat_resize_def example_height_zero)

section \<open>The converter\<close>

text \<open>
  Claim C1, as the code has it. Pillow rejects a height below 1, so the grid exists only when
  \<open>new_height\<close> is at least 1. For every image that opens with a positive width and every
  \<open>output_width\<close> from 1 (the height and \<open>output_width\<close> below \<open>2 ^ 31\<close>, as the sizes
  of a Pillow image are), when \<open>new_height\<close> is at least 1 the conversion returns a grid
  of \<open>new_height\<close> lines, each line but the last of length \<open>output_width\<close>; when
  \<open>new_height\<close> is 0 it raises.
\<close>

theorem grid_shape:
  assumes "resize_contract (image_resize E)" "resize_accepts (image_resize E)"
      and "power_in_unit (np_power E) gamma"
      and "image_open E image_path = Inr img" "0 < width img" "1 \<le> output_width"
      and "height img < 2 ^ 31" "output_width < 2 ^ 31"
  shows "\<exists>nh. new_height output_width (width img) (height img) = Inr nh \<and>
           (1 \<le> nh \<longrightarrow>
              (\<exists>grid. generate_ascii_art E image_path output_width contrast gamma = Inr grid
                 \<and> int (length grid) = nh
                 \<and> (\<forall>i < length grid - 1. int (length (grid ! i)) = output_width))) \<and>
           (nh < 1 \<longrightarrow>
              (\<exists>e. generate_ascii_art E image_path output_width contrast gamma
                      = Inl (RuntimeError Generate e)))"
proof -
  obtain nh where nh: "new_height output_width (width img) (height img) = Inr nh"
    using new_height_defined [of "width img" "height img" output_width] assms(5-8) by auto
  have big: "\<exists>grid. generate_ascii_art E image_path output_width contrast gamma = Inr grid
                 \<and> int (length grid) = nh
                 \<and> (\<forall>i < length grid - 1. int (length (grid ! i)) = output_width)"
    if nh1: "1 \<le> nh"
  proof -
    obtain grid where
      g: "high_precision_image_to_ascii E image_path output_width contrast gamma = Inr grid"
      using convert_returns [OF assms(2,3,1,4) nh assms(6) nh1] by blast
    have "int (length grid) = nh" "\<forall>l \<in> set grid. int (length l) = output_width"
      using convert_Inr [OF assms(1) g] assms(4) nh by auto
    then show ?thesis using g by (auto simp: generate_Inr)
  qed
  have small: "\<exists>e. generate_ascii_art E image_path output_width contrast gamma
                      = Inl (RuntimeError Generate e)" if "nh < 1"
    using convert_fails_small [OF assms(1,4) nh, of contrast gamma] that generate_Inl
    by blast
  show ?thesis using nh big small by blast
qed

theorem grid_shape_witness:
  "resize_contract (image_resize example_env) \<and> resize_accepts (image_resize example_env) \<and>
   power_in_unit (np_power example_env) 2 \<and>
   image_open example_env ''square.png'' = Inr \<lparr>width = 2, height = 2, pix = replicate 4 128\<rparr> \<and>
   (\<exists>grid. generate_ascii_art example_env ''square.png'' 4 1 2 = Inr grid
      \<and> int (length grid) = 2
      \<and> (\<forall>i < length grid - 1. int (length (grid ! i)) = 4))"
proof -
  have o: "image_open example_env ''square.png''
             = Inr \<lparr>width = 2, height = 2, pix = replicate 4 128\<rparr>"
    by (simp add: example_env_def)
  have "\<exists>nh. new_height 4 2 2 = Inr nh \<and>
           (1 \<le> nh \<longrightarrow>
              (\<exists>grid. generate_ascii_art example_env ''square.png'' 4 1 2 = Inr grid
                 \<and> int (length grid) = nh
                 \<and> (\<forall>i < length grid - 1. int (length (grid ! i)) = 4))) \<and>
           (nh < 1 \<longrightarrow>
              (\<exists>e. generate_ascii_art example_env ''square.png'' 4 1 2
                      = Inl (RuntimeError Generate e)))"
    using grid_shape [of example_env 2 "''square.png''"
        "\<lparr>width = 2, height = 2, pix = replicate 4 128\<rparr>" 4 1] example_env_libs [of 2] o
    by simp
  then show ?thesis using example_height o example_env_libs [of 2] by auto
qed

text \<open>
  Claim C1 as stated fails: the 6 by 2 image opens, \<open>output_width\<close> is 2, \<open>new_height\<close>
  is 0 and no grid is returned.
\<close>

theorem grid_shape_counterexample:
  "image_open example_env ''wide.png'' = Inr \<lparr>width = 6, height = 2, pix = replicate 12 128\<rparr> \<and>
   (1::int) \<le> 2 \<and> new_height 2 6 2 = Inr 0 \<and>
   generate_ascii_art example_env ''wide.png'' 2 1 2 = Inl (RuntimeError Generate ValueError)"
proof -
  show ?thesis by (simp add: example_wide example_height_wide) (simp add: example_env_def)
qed

text \<open>
  Claim C10. When the conversion returns a grid, the resized image is \<open>output_width\<close>
  wide and \<open>new_height\<close> high, the character stream made from its pixels is the
  concatenation of the grid and has \<open>output_width * new_height\<close> characters, and every
  line of the grid, the last one too, has length \<open>output_width\<close>.
\<close>

theorem stream_length:
  assumes "resize_contract (image_resize E)"
      and "generate_ascii_art E image_path output_width contrast gamma = Inr grid"
  shows "\<exists>img nh r. image_open E image_path = Inr img
           \<and> new_height output_width (width img) (height img) = Inr nh
           \<and> image_resize E (img\<lparr>pix := map (contrast_adjust contrast) (pix img)\<rparr>)
                 (output_width, nh) = Inr r
           \<and> int (width r) = output_width \<and> int (height r) = nh
           \<and> join_chars (map (char_index (np_power E) gamma) (pix r)) = Inr (concat grid)
           \<and> int (length (concat grid)) = output_width * nh
           \<and> (\<forall>l \<in> set grid. int (length l) = output_width)"
proof -
  obtain img nh r where *: "image_open E image_path = Inr img"
    "new_height output_width (width img) (height img) = Inr nh" "1 \<le> output_width"
    "int (length grid) = nh" "\<forall>l \<in> set grid. int (length l) = output_width"
    and **: "image_resize E (img\<lparr>pix := map (contrast_adjust contrast) (pix img)\<rparr>)
                 (output_width, nh) = Inr r"
    "int (width r) = output_width" "int (height r) = nh"
    "join_chars (map (char_index (np_power E) gamma) (pix r)) = Inr (concat grid)"
    using convert_Inr [OF assms(1)] assms(2) unfolding generate_Inr by blast
  have "\<forall>l \<in> set grid. length l = nat output_width" using *(5) by auto
  then have "length (concat grid) = length grid * nat output_width"
    by (rule concat_all_length)
  then have "int (length (concat grid)) = int (length grid) * output_width"
    using *(3) by simp
  then have "int (length (concat grid)) = output_width * nh"
    using *(4) by (simp add: mult.commute)
  then show ?thesis using * ** by blast
qed

theorem stream_length_witness:
  "resize_contract (image_resize example_env) \<and>
   generate_ascii_art example_env ''square.png'' 4 1 2 = Inr [''qqqq'', ''qqqq''] \<and>
   (\<exists>img nh. image_open example_env ''square.png'' = Inr img
      \<and> new_height 4 (width img) (height img) = Inr nh
      \<and> int (length (concat [''qqqq'', ''qqqq''])) = 4 * nh
      \<and> (\<forall>l \<in> set [''qqqq'', ''qqqq'']. int (length l) = 4))"
  using stream_length [of example_env "''square.png''" 4 1 2 "[''qqqq'', ''qqqq'']"]
    example_env_libs [of 2] example_square
  by blast

text \<open>
  Claim C2, as the code has it. For a width from 1 and a non-negative \<open>output_width\<close>
  (sizes below \<open>2 ^ 31\<close>) the new height is the double product
  \<open>output_width * (height / width) * 0.5\<close> truncated, not rounded to nearest. The product
  is within the factors \<open>1 - 2 ^ -51\<close> and \<open>1 + 2 ^ -51\<close> of the exact
  \<open>output_width * height / (2 * width)\<close>. The new height is never negative, and it is 0
  whenever \<open>output_width * height < 2 * width\<close>, so no minimum of 1 holds. (It can be
  below the floor of the exact value: \<open>new_height_below_exact\<close>.)
\<close>

theorem new_height_truncates:
  assumes "1 \<le> w" "h < 2 ^ 31" "0 \<le> ow" "ow < 2 ^ 31"
  shows "\<exists>nh. new_height ow w h = Inr nh
           \<and> nh = \<lfloor>f64 (f64 (of_int ow * f64 (real h / real w)) * (1 / 2))\<rfloor>
           \<and> 0 \<le> nh
           \<and> \<lfloor>of_int ow * real h / (2 * real w) * (1 - 1 / 2 ^ 51)\<rfloor> \<le> nh
           \<and> nh \<le> \<lfloor>of_int ow * real h / (2 * real w) * (1 + 1 / 2 ^ 51)\<rfloor>
           \<and> (w < 2 ^ 31 \<and> ow * int h < 2 * int w \<longrightarrow> nh = 0)"
proof -
  let ?c = "f64 (f64 (of_int ow * f64 (real h / real w)) * (1 / 2))"
  have nh: "new_height ow w h = Inr \<lfloor>?c\<rfloor>" and c: "0 \<le> ?c"
    using new_height_defined [OF assms] by blast+
  have near: "of_int ow * real h / (2 * real w) * (1 - 1 / 2 ^ 51) \<le> ?c"
    "?c \<le> of_int ow * real h / (2 * real w) * (1 + 1 / 2 ^ 51)"
    using new_height_near [OF assms(1,3), of h] by blast+
  have "\<lfloor>?c\<rfloor> = 0" if "w < 2 ^ 31" "ow * int h < 2 * int w"
    using new_height_zero [OF assms(1) that(1) assms(2-4) that(2)] nh by simp
  then show ?thesis using nh c floor_mono [OF near(1)] floor_mono [OF near(2)] by auto
qed

theorem new_height_truncates_witness:
  "(1::nat) \<le> 4 \<and> (4::nat) < 2 ^ 31 \<and> (3::nat) < 2 ^ 31 \<and> (0::int) \<le> 2 \<and> (2::int) < 2 ^ 31 \<and>
   2 * int 3 < 2 * int 4 \<and> new_height 2 4 3 = Inr 0"
  using new_height_truncates [of 4 3 2] by auto

text \<open>
  Claim C2 as stated fails: for a 4 by 3 image and \<open>output_width = 2\<close> the new height is 0,
  where rounding \<open>0.75\<close> gives 1.
\<close>

theorem new_height_round_counterexample:
  "new_height 2 4 3 = Inr 0 \<and> round (2 * (3 / 4) * (1 / 2) :: real) = 1"
proof -
  have "new_height 2 4 3 = Inr 0" using new_height_zero [of 4 3 2] by simp
  moreover have "round (2 * (3 / 4) * (1 / 2) :: real) = 1" by (simp add: round_def)
  ultimately show ?thesis by blast
qed

text \<open>
  Claim C3, as the code has it. For a contrast from 0.1 to 5 the adjusted sample is the
  \<^verbatim>\<open>float32\<close> value of \<open>(v - 128) * contrast + 128\<close> clipped to \<open>[0, 255]\<close> and
  then truncated, not rounded to nearest. The clipped value is in \<open>[0, 255]\<close>, so the
  conversion to 8 bits does not wrap, and the \<^verbatim>\<open>float32\<close> value is within
  \<open>2 ^ -12\<close> of the exact one.
\<close>

theorem contrast_adjust_truncates:
  assumes "1 / 10 \<le> contrast" "contrast \<le> 5"
  shows "(let exact = (real (unat v) - 128) * contrast + 128;
              x = f32 (f32 ((real (unat v) - 128) * f32 contrast) + 128);
              c = min (max x 0) 255
          in 0 \<le> c \<and> c \<le> 255 \<and> uint (contrast_adjust contrast v) = \<lfloor>c\<rfloor>
             \<and> \<bar>x - exact\<bar> \<le> 1 / 2 ^ 12
             \<and> \<lfloor>min (max (exact - 1 / 2 ^ 12) 0) 255\<rfloor> \<le> uint (contrast_adjust contrast v)
             \<and> uint (contrast_adjust contrast v) \<le> \<lfloor>min (max (exact + 1 / 2 ^ 12) 0) 255\<rfloor>)"
proof -
  define d where "d = real (unat v) - 128"
  define exact where "exact = d * contrast + 128"
  define x where "x = f32 (f32 (d * f32 contrast) + 128)"
  define c where "c = min (max x 0) 255"
  have "\<bar>d\<bar> \<le> 128" using sample_bounds [of v] unfolding d_def by linarith
  then have err: "\<bar>x - exact\<bar> \<le> 1 / 2 ^ 12"
    unfolding x_def exact_def using assms by (intro contrast_error) simp_all
  have r: "0 \<le> c" "c \<le> 255" by (simp_all add: c_def)
  then have "0 \<le> \<lfloor>c\<rfloor>" "\<lfloor>c\<rfloor> < 256" by (simp_all add: floor_less_iff)
  then have "uint (word_of_int \<lfloor>c\<rfloor> :: 8 word) = \<lfloor>c\<rfloor>"
    by (simp add: uint_word_of_int)
  moreover have "contrast_adjust contrast v = word_of_int \<lfloor>c\<rfloor>"
    using r
    by (simp add: contrast_adjust_def c_def x_def d_def py_int_def Let_def f32_sample
        f32_sample_shift del: of_nat_unat)
  ultimately have u: "uint (contrast_adjust contrast v) = \<lfloor>c\<rfloor>" by simp
  have b: "min (max (exact - 1 / 2 ^ 12) 0) 255 \<le> c" "c \<le> min (max (exact + 1 / 2 ^ 12) 0) 255"
    using err unfolding c_def by linarith+
  have "\<lfloor>min (max (exact - 1 / 2 ^ 12) 0) 255\<rfloor> \<le> \<lfloor>c\<rfloor>"
    "\<lfloor>c\<rfloor> \<le> \<lfloor>min (max (exact + 1 / 2 ^ 12) 0) 255\<rfloor>"
    using floor_mono [OF b(1)] floor_mono [OF b(2)] by blast+
  then show ?thesis using r u err
    unfolding Let_def c_def x_def exact_def d_def by simp
qed

theorem contrast_adjust_truncates_witness:
  "(1::real) / 10 \<le> 7 / 4 \<and> (7::real) / 4 \<le> 5 \<and> uint (contrast_adjust (7 / 4) 129) = 129"
proof -
  have "real (unat (129 :: 8 word)) = 129" by simp
  then show ?thesis
    using contrast_adjust_truncates [of "7 / 4" 129]
    by (simp add: Let_def del: of_nat_unat)
qed

text \<open>
  Claim C3 as stated fails: for the sample 129 and contrast 1.75 the value is 129.75, the code
  gives 129 and rounding gives 130.
\<close>

theorem contrast_round_counterexample:
  "contrast_adjust (7 / 4) 129 = 129 \<and>
   round (min (max ((129 - 128) * (7 / 4) + 128) 0) 255 :: real) = 130"
  by code_simp

text \<open>
  Claim C4. When the power of a number of the unit interval is in the unit interval, as it is
  for a non-negative \<open>gamma\<close>, the character index of every pixel is between 0 and
  \<open>len(ASCII_CHARS) - 1\<close> and \<^verbatim>\<open>ASCII_CHARS[i]\<close> does not raise; the ramp has 70
  characters, the first \<open>@\<close> and the last a blank.
\<close>

theorem char_index_in_ramp:
  "power_in_unit pw gamma \<Longrightarrow>
   0 \<le> char_index pw gamma p \<and> char_index pw gamma p \<le> int (length ASCII_CHARS) - 1 \<and>
   py_index ASCII_CHARS (char_index pw gamma p) = Inr (ASCII_CHARS ! nat (char_index pw gamma p)) \<and>
   length ASCII_CHARS = 70 \<and> hd ASCII_CHARS = CHR ''@'' \<and> last ASCII_CHARS = CHR '' ''"
  using char_index_range [of pw gamma p]
  by (simp add: ASCII_CHARS_length py_index_def) (simp add: ASCII_CHARS_def)

theorem char_index_in_ramp_witness:
  "power_in_unit real_power (4 / 5) \<and>
   0 \<le> char_index real_power (4 / 5) 200 \<and> char_index real_power (4 / 5) 200 \<le> 69"
  using char_index_in_ramp [OF real_power_in_unit [of "4 / 5"], of 200]
    real_power_in_unit [of "4 / 5"]
  by simp

text \<open>
  Claim C5, as the code has it. For a fixed \<open>gamma > 0\<close> the character index does not
  decrease when the pixel value grows; and for \<open>gamma\<close> from 1 up the index of a pixel
  is at most its index at \<open>gamma = 1\<close>: a larger \<open>gamma\<close> never increases it.
\<close>

theorem gamma_monotone:
  "(0 < gamma \<and> p \<le> q \<longrightarrow> char_index real_power gamma p \<le> char_index real_power gamma q) \<and>
   (1 \<le> gamma \<longrightarrow> char_index real_power gamma p \<le> char_index real_power 1 p)"
proof -
  have a: "char_index real_power gamma p \<le> char_index real_power gamma q"
    if "0 < gamma" "p \<le> q"
  proof (rule char_index_mono_power [OF _ that(2)])
    fix x y :: real
    assume "0 \<le> x" "x \<le> y" "y \<le> 1"
    then show "real_power x gamma \<le> real_power y gamma"
      using that(1) by (simp add: real_power_def powr_mono2)
  qed
  have b: "char_index real_power gamma p \<le> char_index real_power 1 p" if "1 \<le> gamma"
  proof (rule char_index_le_power)
    fix x :: real
    assume "0 \<le> x" "x \<le> 1"
    then show "real_power x gamma \<le> real_power x 1"
      using that powr_mono' [of 1 gamma x] by (simp add: real_power_def)
  qed
  show ?thesis using a b by blast
qed

theorem gamma_monotone_witness:
  "(0::real) < 2 \<and> (1::real) \<le> 2 \<and> (128 :: 8 word) \<le> 255 \<and>
   char_index real_power 2 128 \<le> char_index real_power 2 255 \<and>
   char_index real_power 2 128 \<le> char_index real_power 1 128"
  using gamma_monotone [of 2 128 255] by simp

text \<open>
  Claim C5 as stated fails in its second half: raising \<open>gamma\<close> from 1 to 2 lowers the index
  of the pixel value 128 from 34 to 17.
\<close>

theorem gamma_increase_counterexample:
  "(1::real) < 2 \<and> char_index real_power 2 128 < char_index real_power 1 128"
  by (simp add: char_index_gray_1 char_index_gray_2)

text \<open>
  Claim C6, as the code has it. When \<open>output_width\<close> is 0 or negative, when the image
  has zero width or height, and when the image cannot be opened, \<^verbatim>\<open>generate_ascii_art\<close>
  raises a RuntimeError, the one class of error it has; for a file that does not open, the
  RuntimeError carries the error of \<^verbatim>\<open>Image.open\<close>. Whenever the conversion raises, as
  it does for \<open>output_width = 0\<close>, the worker writes no file.
\<close>

theorem convert_failures:
  assumes "resize_contract (image_resize E)"
  shows "(output_width \<le> 0 \<or> (\<exists>e. image_open E image_path = Inl e)
            \<or> (\<exists>img. image_open E image_path = Inr img \<and> (width img = 0 \<or> height img = 0))
          \<longrightarrow> (\<exists>e. generate_ascii_art E image_path output_width contrast gamma
                     = Inl (RuntimeError Generate e))) \<and>
         (\<forall>e. image_open E image_path = Inl e
          \<longrightarrow> generate_ascii_art E image_path output_width contrast gamma
                = Inl (RuntimeError Generate e)) \<and>
         ((\<forall>grid. generate_ascii_art E image_path output_width contrast gamma \<noteq> Inr grid)
          \<longrightarrow> written (snd (generate_ascii E s image_path output_dir output_width contrast gamma
                              font_size save_text save_image)) = written s) \<and>
         (output_width \<le> 0
          \<longrightarrow> written (snd (generate_ascii E s image_path output_dir output_width contrast gamma
                              font_size save_text save_image)) = written s)"
proof -
  let ?g = "generate_ascii_art E image_path output_width contrast gamma"
  have op: "?g = Inl (RuntimeError Generate e)" if "image_open E image_path = Inl e" for e
    using that by (simp add: generate_ascii_art_def wrap_def high_precision_image_to_ascii_def)
  have zw: "\<exists>e. ?g = Inl (RuntimeError Generate e)"
    if "image_open E image_path = Inr img" "width img = 0" for img
    using that
    by (simp add: generate_ascii_art_def wrap_def high_precision_image_to_ascii_def
        new_height_def)
  have zh: "\<exists>e. ?g = Inl (RuntimeError Generate e)"
    if "image_open E image_path = Inr img" "height img = 0" "width img \<noteq> 0" for img
  proof -
    have "new_height output_width (width img) (height img) = Inr 0
            \<or> new_height output_width (width img) (height img) = Inl OverflowError"
      using that by (simp add: new_height_def py_int_def)
    then show ?thesis
    proof
      assume "new_height output_width (width img) (height img) = Inr 0"
      then show ?thesis
        using convert_fails_small [OF assms that(1), of output_width 0 contrast gamma]
          generate_Inl by fastforce
    next
      assume "new_height output_width (width img) (height img) = Inl OverflowError"
      then show ?thesis using that(1)
        by (simp add: generate_ascii_art_def wrap_def high_precision_image_to_ascii_def)
    qed
  qed
  have ow: "\<exists>e. ?g = Inl (RuntimeError Generate e)" if "output_width \<le> 0"
  proof (cases "high_precision_image_to_ascii E image_path output_width contrast gamma")
    case (Inl e)
    then show ?thesis using generate_Inl by blast
  next
    case (Inr grid)
    then show ?thesis using convert_Inr [OF assms Inr] that by auto
  qed
  have nofile: "written (snd (generate_ascii E s image_path output_dir output_width contrast
                     gamma font_size save_text save_image)) = written s"
    if "\<forall>grid. ?g \<noteq> Inr grid"
    using that
    by (cases ?g) (auto simp: generate_ascii_def Let_def split: option.splits)
  have "\<forall>grid. ?g \<noteq> Inr grid" if "output_width \<le> 0"
    using ow [OF that] by auto
  then show ?thesis using op zw zh ow nofile by (intro conjI impI allI) blast+
qed

theorem convert_failures_witness:
  "resize_contract (image_resize example_env) \<and> (0::int) \<le> 0 \<and>
   (\<exists>e. generate_ascii_art example_env ''square.png'' 0 1 2 = Inl (RuntimeError Generate e)) \<and>
   written (snd (generate_ascii example_env empty_state ''square.png'' ''out'' 0 1 2 10 True True))
     = written empty_state"
  using convert_failures [of example_env 0 "''square.png''" 1 2 empty_state "''out''" 10 True True]
    example_env_libs [of 2]
  by simp

text \<open>
  Claim C6 as stated fails: the error for \<open>output_width = 0\<close> and the error for a file that
  cannot be opened have the same class, RuntimeError.
\<close>

theorem error_kind_counterexample:
  "map_sum exn_class id (generate_ascii_art example_env ''square.png'' 0 1 2)
     = Inl ''RuntimeError'' \<and>
   map_sum exn_class id (generate_ascii_art example_env ''missing.png'' 4 1 2)
     = Inl ''RuntimeError''"
  by (simp add: example_zero_width example_missing)

section \<open>The renderer\<close>

text \<open>
  Claim C7. For every non-empty list of lines, the bitmap that \<^verbatim>\<open>save_ascii_image\<close> writes
  and \<^verbatim>\<open>save_high_res_ascii\<close> returns is \<open>char_width * len(ascii_lines[0])\<close> wide and
  \<open>char_height * len(ascii_lines)\<close> high, where the character size is
  \<^verbatim>\<open>font.getsize("A")\<close> of the resolved font, or \<open>(6, 12)\<close> when the font has no
  \<^verbatim>\<open>getsize\<close>.
\<close>

theorem render_bitmap_size:
  "ascii_lines \<noteq> [] \<Longrightarrow>
   (\<exists>img. ascii_bitmap f ascii_lines bg fg = Inr img
      \<and> bm_width img = fst (char_size f) * length (hd ascii_lines)
      \<and> bm_height img = snd (char_size f) * length ascii_lines
      \<and> (get_font E s font_size = (Inr f, s1) \<and> image_save E img path = None \<longrightarrow>
           save_ascii_image E s ascii_lines path font_size bg fg
             = (Inr True, s1\<lparr>written := written s1 @ [(path, Png img)]\<rparr>))
      \<and> ((case find_font E font_size of Some f' \<Rightarrow> Inr f' | None \<Rightarrow> load_default E) = Inr f
           \<and> image_save E img path = None \<longrightarrow>
           fst (save_high_res_ascii E s ascii_lines path font_size bg fg) = Inr img))
   \<and> char_size f = (case getsize f of Some g \<Rightarrow> g ''A'' | None \<Rightarrow> (6, 12))"
proof -
  assume "ascii_lines \<noteq> []"
  then obtain l rest where ls: "ascii_lines = l # rest" by (cases ascii_lines) auto
  obtain img where img: "ascii_bitmap f (l # rest) bg fg = Inr img"
    "bm_width img = fst (char_size f) * length l"
    "bm_height img = snd (char_size f) * length (l # rest)"
    using ascii_bitmap_Cons [of f l rest bg fg] by blast
  have "save_ascii_image E s (l # rest) path font_size bg fg
          = (Inr True, s1\<lparr>written := written s1 @ [(path, Png img)]\<rparr>)"
    if "get_font E s font_size = (Inr f, s1)" "image_save E img path = None"
    using that img(1) by (simp add: save_ascii_image_def)
  moreover have "fst (save_high_res_ascii E s (l # rest) path font_size bg fg) = Inr img"
    if "(case find_font E font_size of Some f' \<Rightarrow> Inr f' | None \<Rightarrow> load_default E) = Inr f"
       "image_save E img path = None"
    using that img(1) by (simp add: save_high_res_ascii_def)
  ultimately show ?thesis using img ls by (auto simp: char_size_def)
qed

theorem render_bitmap_size_witness:
  "[''ab'', ''cd''] \<noteq> [] \<and>
   char_size mono_font = (5, 9) \<and>
   (\<exists>img. ascii_bitmap mono_font [''ab'', ''cd''] (3, 3, 3) (255, 255, 255) = Inr img
      \<and> bm_width img = 10 \<and> bm_height img = 18)"
proof -
  have cs: "char_size mono_font = (5, 9)" by (simp add: char_size_def mono_font_def)
  have ne: "[''ab'', ''cd''] \<noteq> []" by simp
  show ?thesis
    using render_bitmap_size [where ascii_lines = "[''ab'', ''cd'']" and f = mono_font
        and bg = "(3, 3, 3)" and fg = "(255, 255, 255)" and E = example_env
        and s = empty_state and font_size = 10 and ?s1.0 = empty_state and path = "''o.png''"]
      cs ne
    by auto
qed

text \<open>
  Claim C8, as the code has it. With an empty list of lines, and with a first line of zero
  length, the renderer fails, and it writes no file. It fails in \<^verbatim>\<open>save_ascii_image\<close> with a
  RuntimeError, the one class of error of that method, and in \<^verbatim>\<open>save_high_res_ascii\<close> with
  the error the RuntimeError replaces. The renderer checks nothing itself: for the empty list
  the error is the IndexError of \<^verbatim>\<open>ascii_lines[0]\<close>; for an empty first line the bitmap is
  made with width 0 and the error is the one \<^verbatim>\<open>img.save\<close> raises for an empty image.
\<close>

theorem render_unvalidated:
  assumes "save_rejects_empty (image_save E)"
  shows "(\<exists>e. save_ascii_image E s [] path font_size bg fg
               = (Inl (RuntimeError SaveImage e), snd (get_font E s font_size))) \<and>
         (\<exists>e. save_ascii_image E s ([] # rest) path font_size bg fg
               = (Inl (RuntimeError SaveImage e), snd (get_font E s font_size))) \<and>
         (\<forall>f s1. get_font E s font_size = (Inr f, s1) \<longrightarrow>
            save_ascii_image E s [] path font_size bg fg
              = (Inl (RuntimeError SaveImage IndexError), s1) \<and>
            (\<exists>img e. ascii_bitmap f ([] # rest) bg fg = Inr img \<and> bm_width img = 0
               \<and> bm_height img = snd (char_size f) * Suc (length rest)
               \<and> image_save E img path = Some e
               \<and> save_ascii_image E s ([] # rest) path font_size bg fg
                     = (Inl (RuntimeError SaveImage e), s1))) \<and>
         (\<forall>f. (case find_font E font_size of Some f' \<Rightarrow> Inr f' | None \<Rightarrow> load_default E) = Inr f
            \<longrightarrow>
            save_high_res_ascii E s [] path font_size bg fg = (Inl IndexError, s) \<and>
            (\<exists>img e. ascii_bitmap f ([] # rest) bg fg = Inr img \<and> bm_width img = 0
               \<and> image_save E img path = Some e
               \<and> save_high_res_ascii E s ([] # rest) path font_size bg fg = (Inl e, s))) \<and>
         (\<forall>e. (case find_font E font_size of Some f' \<Rightarrow> Inr f' | None \<Rightarrow> load_default E) = Inl e
            \<longrightarrow>
            save_high_res_ascii E s [] path font_size bg fg = (Inl e, s) \<and>
            save_high_res_ascii E s ([] # rest) path font_size bg fg = (Inl e, s)) \<and>
         written (snd (save_ascii_image E s [] path font_size bg fg)) = written s \<and>
         written (snd (save_ascii_image E s ([] # rest) path font_size bg fg)) = written s"
proof -
  have nil: "ascii_bitmap f' [] bg fg = Inl IndexError" for f'
    by (cases "char_size f'") (simp add: ascii_bitmap_def)
  have empty: "\<exists>img e. ascii_bitmap f' ([] # rest) bg fg = Inr img \<and> bm_width img = 0
      \<and> bm_height img = snd (char_size f') * Suc (length rest)
      \<and> image_save E img path = Some e" for f'
  proof -
    obtain img where img: "ascii_bitmap f' ([] # rest) bg fg = Inr img" "bm_width img = 0"
      "bm_height img = snd (char_size f') * Suc (length rest)"
      using ascii_bitmap_Cons [of f' "[]" rest bg fg] by auto
    then have "image_save E img path \<noteq> None"
      using assms unfolding save_rejects_empty_def by blast
    then show ?thesis using img by auto
  qed
  have cache: "written (snd (get_font E s font_size)) = written s"
    by (auto simp: get_font_def split: option.splits sum.splits)
  obtain r s1 where g: "get_font E s font_size = (r, s1)" by (cases "get_font E s font_size")
  have a: "\<exists>e. save_ascii_image E s [] path font_size bg fg
               = (Inl (RuntimeError SaveImage e), snd (get_font E s font_size))"
    using g by (cases r) (simp_all add: save_ascii_image_def nil)
  have b: "\<exists>e. save_ascii_image E s ([] # rest) path font_size bg fg
               = (Inl (RuntimeError SaveImage e), snd (get_font E s font_size))"
  proof (cases r)
    case (Inl e)
    then show ?thesis using g by (simp add: save_ascii_image_def)
  next
    case (Inr f)
    then show ?thesis using g empty [of f] by (auto simp: save_ascii_image_def)
  qed
  have c: "\<forall>f s1. get_font E s font_size = (Inr f, s1) \<longrightarrow>
            save_ascii_image E s [] path font_size bg fg
              = (Inl (RuntimeError SaveImage IndexError), s1) \<and>
            (\<exists>img e. ascii_bitmap f ([] # rest) bg fg = Inr img \<and> bm_width img = 0
               \<and> bm_height img = snd (char_size f) * Suc (length rest)
               \<and> image_save E img path = Some e
               \<and> save_ascii_image E s ([] # rest) path font_size bg fg
                     = (Inl (RuntimeError SaveImage e), s1))"
  proof (intro allI impI)
    fix f s2
    assume gf: "get_font E s font_size = (Inr f, s2)"
    obtain img e where "ascii_bitmap f ([] # rest) bg fg = Inr img" "bm_width img = 0"
      "bm_height img = snd (char_size f) * Suc (length rest)" "image_save E img path = Some e"
      using empty [of f] by blast
    then show "save_ascii_image E s [] path font_size bg fg
              = (Inl (RuntimeError SaveImage IndexError), s2) \<and>
            (\<exists>img e. ascii_bitmap f ([] # rest) bg fg = Inr img \<and> bm_width img = 0
               \<and> bm_height img = snd (char_size f) * Suc (length rest)
               \<and> image_save E img path = Some e
               \<and> save_ascii_image E s ([] # rest) path font_size bg fg
                     = (Inl (RuntimeError SaveImage e), s2))"
      using gf by (auto simp: save_ascii_image_def nil)
  qed
  have d: "\<forall>f. (case find_font E font_size of Some f' \<Rightarrow> Inr f' | None \<Rightarrow> load_default E) = Inr f
            \<longrightarrow>
            save_high_res_ascii E s [] path font_size bg fg = (Inl IndexError, s) \<and>
            (\<exists>img e. ascii_bitmap f ([] # rest) bg fg = Inr img \<and> bm_width img = 0
               \<and> image_save E img path = Some e
               \<and> save_high_res_ascii E s ([] # rest) path font_size bg fg = (Inl e, s))"
  proof (intro allI impI)
    fix f
    assume ff: "(case find_font E font_size of Some f' \<Rightarrow> Inr f' | None \<Rightarrow> load_default E) = Inr f"
    obtain img e where "ascii_bitmap f ([] # rest) bg fg = Inr img" "bm_width img = 0"
      "image_save E img path = Some e"
      using empty [of f] by blast
    then show "save_high_res_ascii E s [] path font_size bg fg = (Inl IndexError, s) \<and>
            (\<exists>img e. ascii_bitmap f ([] # rest) bg fg = Inr img \<and> bm_width img = 0
               \<and> image_save E img path = Some e
               \<and> save_high_res_ascii E s ([] # rest) path font_size bg fg = (Inl e, s))"
      using ff by (auto simp: save_high_res_ascii_def nil)
  qed
  have e: "\<forall>e. (case find_font E font_size of Some f' \<Rightarrow> Inr f' | None \<Rightarrow> load_default E) = Inl e
            \<longrightarrow>
            save_high_res_ascii E s [] path font_size bg fg = (Inl e, s) \<and>
            save_high_res_ascii E s ([] # rest) path font_size bg fg = (Inl e, s)"
    by (simp add: save_high_res_ascii_def)
  have w1: "written (snd (save_ascii_image E s [] path font_size bg fg)) = written s"
    using a cache by auto
  have w2: "written (snd (save_ascii_image E s ([] # rest) path font_size bg fg)) = written s"
    using b cache by auto
  show ?thesis using a b c d e w1 w2 by (intro conjI)
qed

theorem render_unvalidated_witness:
  "save_rejects_empty (image_save example_env) \<and>
   get_font example_env empty_state 10
     = (Inr mono_font, empty_state\<lparr>font_cache := (font_cache empty_state)(10 \<mapsto> mono_font)\<rparr>) \<and>
   fst (save_ascii_image example_env empty_state [] ''o.png'' 10 (3, 3, 3) (255, 255, 255))
     = Inl (RuntimeError SaveImage IndexError) \<and>
   (\<exists>e. fst (save_ascii_image example_env empty_state [''''] ''o.png'' 10 (3, 3, 3)
             (255, 255, 255)) = Inl (RuntimeError SaveImage e)) \<and>
   written (snd (save_ascii_image example_env empty_state [''''] ''o.png'' 10 (3, 3, 3)
             (255, 255, 255))) = written empty_state"
proof -
  have g: "get_font example_env empty_state 10
     = (Inr mono_font, empty_state\<lparr>font_cache := (font_cache empty_state)(10 \<mapsto> mono_font)\<rparr>)"
    by (simp add: get_font_def find_font_def example_env_def default_font_paths_def
        common_fonts_def empty_state_def)
  have sv: "save_rejects_empty (image_save example_env)"
    by (simp add: save_rejects_empty_def example_env_def)
  show ?thesis
    using render_unvalidated [OF sv, of empty_state "''o.png''" 10 "(3, 3, 3)"
        "(255, 255, 255)" "[]"] g sv
    by auto
qed

text \<open>
  Claim C8 as stated fails: both errors are of class RuntimeError, and for an empty first line
  the renderer has made the bitmap, of width 0, before \<^verbatim>\<open>img.save\<close> refuses it.
\<close>

theorem render_validation_counterexample:
  "map_sum exn_class id
     (fst (save_ascii_image example_env empty_state [] ''o.png'' 10 (3, 3, 3) (255, 255, 255)))
     = Inl ''RuntimeError'' \<and>
   fst (save_ascii_image example_env empty_state [''''] ''o.png'' 10 (3, 3, 3) (255, 255, 255))
     = Inl (RuntimeError SaveImage ValueError) \<and>
   map_sum exn_class id
     (fst (save_ascii_image example_env empty_state [''''] ''o.png'' 10 (3, 3, 3) (255, 255, 255)))
     = Inl ''RuntimeError'' \<and>
   ascii_bitmap mono_font [''''] (3, 3, 3) (255, 255, 255)
     = Inr \<lparr>bm_width = 0, bm_height = 9, background = (3, 3, 3),
            texts = [((0, 0), '''', (255, 255, 255))]\<rparr>"
  by (simp add: ascii_bitmap_def char_size_def save_ascii_image_def
      get_font_def find_font_def example_env_def default_font_paths_def common_fonts_def
      empty_state_def mono_font_def)

text \<open>
  Claim C9. On a cache miss \<^verbatim>\<open>_get_font\<close> returns the first success among the font paths
  that exist, then the font names, then the built-in font, and caches it; on a cache hit it
  returns the cached font. It returns a font whenever the built-in font loads, and it raises
  only when every attempt has failed.
\<close>

theorem get_font_first_success:
  "(font_cache s font_size = None \<longrightarrow>
      (case first_success (font_attempts E font_size) of
         Some f \<Rightarrow> get_font E s font_size
                     = (Inr f, s\<lparr>font_cache := (font_cache s)(font_size \<mapsto> f)\<rparr>)
       | None \<Rightarrow> (\<exists>e. load_default E = Inl e
                       \<and> get_font E s font_size = (Inl (RuntimeError LoadFont e), s)))) \<and>
   (\<forall>f. font_cache s font_size = Some f \<longrightarrow> get_font E s font_size = (Inr f, s)) \<and>
   ((\<exists>d. load_default E = Inr d) \<longrightarrow> (\<exists>f s'. get_font E s font_size = (Inr f, s'))) \<and>
   (\<forall>e s'. get_font E s font_size = (Inl e, s') \<longrightarrow>
      (\<forall>r \<in> set (font_attempts E font_size). isl r))"
proof -
  have a: "font_cache s font_size = None \<longrightarrow>
      (case first_success (font_attempts E font_size) of
         Some f \<Rightarrow> get_font E s font_size
                     = (Inr f, s\<lparr>font_cache := (font_cache s)(font_size \<mapsto> f)\<rparr>)
       | None \<Rightarrow> (\<exists>e. load_default E = Inl e
                       \<and> get_font E s font_size = (Inl (RuntimeError LoadFont e), s)))"
    using find_font_first [of E font_size]
    by (auto simp: get_font_def split: option.splits sum.splits)
  have b: "\<forall>f. font_cache s font_size = Some f \<longrightarrow> get_font E s font_size = (Inr f, s)"
    by (simp add: get_font_def)
  have c: "(\<exists>d. load_default E = Inr d) \<longrightarrow> (\<exists>f s'. get_font E s font_size = (Inr f, s'))"
    by (auto simp: get_font_def split: option.splits sum.splits)
  have d: "\<forall>e s'. get_font E s font_size = (Inl e, s') \<longrightarrow>
      (\<forall>r \<in> set (font_attempts E font_size). isl r)"
    using find_font_first [of E font_size] first_success_None [of "font_attempts E font_size"]
    by (auto simp: get_font_def split: option.splits sum.splits)
  show ?thesis using a b c d by blast
qed

theorem get_font_first_success_witness:
  "font_cache empty_state 10 = None \<and> load_default example_env = Inr builtin_font \<and>
   get_font example_env empty_state 10
     = (Inr mono_font, empty_state\<lparr>font_cache := (font_cache empty_state)(10 \<mapsto> mono_font)\<rparr>)"
proof -
  have fs: "first_success (font_attempts example_env 10) = Some mono_font"
    by (simp add: font_attempts_def example_env_def default_font_paths_def common_fonts_def)
  show ?thesis
    using get_font_first_success [of empty_state 10 example_env] fs
    by (simp add: empty_state_def example_env_def)
qed

end
